(* ===== verification/Hop_Prelude.thy ===== *)
theory Hop_Prelude
  imports Main "HOL-Library.Word" "HOL-Library.Multiset" "HOL-Library.Signed_Division"
begin

unbundle bit_operations_syntax

text \<open>
  Shared vocabulary of the development: the machine types of the Go program, the outcome
  type of a Go call (returns, panics, does not return), the wrap-around and truncating
  division of \<open>int64\<close>, the big-endian encodings of \<open>encoding/binary\<close>, Go's
  \<open>copy\<close>, decimal printing and parsing (\<open>fmt\<close>'s \<open>%d\<close> and its inverse), and
  the view of a byte slice as a sequence of bits.
\<close>

section \<open>Machine types and outcomes\<close>

type_synonym byte = "8 word"
type_synonym u16 = "16 word"
type_synonym u64 = "64 word"
type_synonym bytes = "byte list"

named_theorems go_simps \<open>evaluation of Go outcomes and integer operations\<close>

datatype go_panic = DivideByZero | IndexOutOfRange | SliceBounds | Explicit string

text \<open>A call returns a value, panics, or does not return (an endless loop).\<close>

datatype 'a go = Ret 'a | Panic go_panic | Hang

fun go_bind :: "'a go \<Rightarrow> ('a \<Rightarrow> 'b go) \<Rightarrow> 'b go" where
  "go_bind (Ret x) f = f x"
| "go_bind (Panic p) f = Panic p"
| "go_bind Hang f = Hang"

fun go_of_option :: "'a option \<Rightarrow> 'a go" where
  "go_of_option None = Hang"
| "go_of_option (Some x) = Ret x"

lemma go_bind_eq_Ret [simp]:
  "go_bind m f = Ret y \<longleftrightarrow> (\<exists>x. m = Ret x \<and> f x = Ret y)"
  by (cases m) auto

lemma go_bind_eq_Panic:
  "go_bind m f = Panic p \<longleftrightarrow> m = Panic p \<or> (\<exists>x. m = Ret x \<and> f x = Panic p)"
  by (cases m) auto

lemma go_bind_assoc: "go_bind (go_bind m f) g = go_bind m (\<lambda>x. go_bind (f x) g)"
  by (cases m) auto

lemma go_of_option_eq_Ret [simp]: "go_of_option m = Ret x \<longleftrightarrow> m = Some x"
  by (cases m) auto

section \<open>Signed 64-bit integers\<close>

text \<open>
  An \<open>int64\<close> (and Go's \<open>int\<close> on the 64-bit targets of the program) is an \<open>int\<close>
  between \<open>-2^63\<close> and \<open>2^63 - 1\<close>; every operation that can leave the range wraps.
\<close>

definition wrap64 :: "int \<Rightarrow> int" where
  "wrap64 x = (x + 2 ^ 63) mod 2 ^ 64 - 2 ^ 63"

definition int64_range :: "int \<Rightarrow> bool" where
  "int64_range x \<longleftrightarrow> - (2 ^ 63) \<le> x \<and> x < 2 ^ 63"

lemma wrap64_id: "int64_range x \<Longrightarrow> wrap64 x = x"
  by (simp add: wrap64_def int64_range_def)

lemma wrap64_range [simp]: "int64_range (wrap64 x)"
proof -
  have "0 \<le> (x + 2 ^ 63) mod 2 ^ 64" "(x + 2 ^ 63) mod 2 ^ 64 < 2 ^ 64" by simp_all
  then show ?thesis by (simp add: wrap64_def int64_range_def)
qed

lemma wrap64_wrap64 [simp]: "wrap64 (wrap64 x) = wrap64 x"
  by (simp add: wrap64_id)

lemma wrap64_small [go_simps]:
  "- 9223372036854775808 \<le> x \<Longrightarrow> x < 9223372036854775808 \<Longrightarrow> wrap64 x = x"
  by (rule wrap64_id) (simp add: int64_range_def)

lemma wrap64_mod: "wrap64 x mod 2 ^ 64 = x mod 2 ^ 64"
  unfolding wrap64_def by (metis add_diff_cancel_right' mod_diff_left_eq)

lemma wrap64_cong: "x mod 2 ^ 64 = y mod 2 ^ 64 \<Longrightarrow> wrap64 x = wrap64 y"
  unfolding wrap64_def by (metis mod_add_left_eq)

lemma wrap64_add_wrap [simp]:
  "wrap64 (wrap64 x + y) = wrap64 (x + y)" "wrap64 (x + wrap64 y) = wrap64 (x + y)"
  by (rule wrap64_cong, metis wrap64_mod mod_add_left_eq mod_add_right_eq)+

lemma wrap64_diff_wrap [simp]:
  "wrap64 (wrap64 x - y) = wrap64 (x - y)" "wrap64 (x - wrap64 y) = wrap64 (x - y)"
  by (rule wrap64_cong, metis wrap64_mod mod_diff_left_eq mod_diff_right_eq)+

text \<open>Go's \<open>/\<close> and \<open>%\<close> on signed integers truncate towards zero and panic on zero.\<close>

definition go_div :: "int \<Rightarrow> int \<Rightarrow> int go" where
  "go_div a b = (if b = 0 then Panic DivideByZero else Ret (wrap64 (a sdiv b)))"

definition go_mod :: "int \<Rightarrow> int \<Rightarrow> int go" where
  "go_mod a b = (if b = 0 then Panic DivideByZero else Ret (a smod b))"

lemma sdiv_nonneg: "0 \<le> a \<Longrightarrow> 0 < b \<Longrightarrow> a sdiv b = a div (b::int)"
  by (auto simp: signed_divide_int_def sgn_if)

lemma smod_nonneg: "0 \<le> a \<Longrightarrow> 0 < b \<Longrightarrow> a smod b = a mod (b::int)"
  by (cases "a = 0") (auto simp: signed_modulo_int_def sdiv_nonneg minus_div_mult_eq_mod)

lemma go_div_nonneg [go_simps]:
  assumes "0 \<le> a" "a < 2 ^ 63" "0 < b"
  shows "go_div a b = Ret (a div b)"
proof -
  have "a div b \<le> a"
    using assms by (metis div_by_1 int_one_le_iff_zero_less zdiv_mono2 zero_less_one)
  moreover have "0 \<le> a div b" using assms by (simp add: pos_imp_zdiv_nonneg_iff)
  ultimately have "int64_range (a div b)" using assms(2) by (simp add: int64_range_def)
  then show ?thesis using assms by (simp add: go_div_def sdiv_nonneg wrap64_id)
qed

lemma go_mod_nonneg [go_simps]: "0 \<le> a \<Longrightarrow> 0 < b \<Longrightarrow> go_mod a b = Ret (a mod b)"
  by (simp add: go_mod_def smod_nonneg)

text \<open>Reinterpretation of \<open>int64\<close> as \<open>uint64\<close> and back.\<close>

definition u64_of_i64 :: "int \<Rightarrow> u64" where "u64_of_i64 x = word_of_int x"
definition i64_of_u64 :: "u64 \<Rightarrow> int" where "i64_of_u64 w = sint w"

lemma i64_of_u64_range [simp]: "int64_range (i64_of_u64 w)"
  using sint_greater_eq [of w] sint_less [of w] by (simp add: i64_of_u64_def int64_range_def)

lemma i64_u64_inverse [simp]: "int64_range x \<Longrightarrow> i64_of_u64 (u64_of_i64 x) = x"
  unfolding i64_of_u64_def u64_of_i64_def int64_range_def
  by (simp add: sint_sbintrunc' signed_take_bit_int_eq_self)

lemma u64_i64_inverse [simp]: "u64_of_i64 (i64_of_u64 w) = w"
  by (simp add: i64_of_u64_def u64_of_i64_def)

end
