(* ===== verification/Go_Bytes.thy ===== *)
theory Go_Bytes
  imports Hop_Prelude
begin

text \<open>
  The parts of Go's standard library that handle bytes: \<open>encoding/binary\<close>'s big-endian
  accessors, the built-in \<open>copy\<close>, a byte slice read as a sequence of bits, and the
  decimal notation of \<open>fmt\<close> and \<open>strconv\<close>.
\<close>

section \<open>Big-endian integers\<close>

text \<open>\<open>binary.BigEndian.PutUint64\<close> and \<open>binary.BigEndian.Uint64\<close>.\<close>

definition put_be64 :: "u64 \<Rightarrow> bytes" where
  "put_be64 v = [ucast (drop_bit 56 v), ucast (drop_bit 48 v), ucast (drop_bit 40 v),
     ucast (drop_bit 32 v), ucast (drop_bit 24 v), ucast (drop_bit 16 v),
     ucast (drop_bit 8 v), ucast v]"

fun get_be64 :: "bytes \<Rightarrow> u64 go" where
  "get_be64 (b0 # b1 # b2 # b3 # b4 # b5 # b6 # b7 # _) =
     Ret (ucast b7 OR push_bit 8 (ucast b6) OR push_bit 16 (ucast b5) OR
       push_bit 24 (ucast b4) OR push_bit 32 (ucast b3) OR push_bit 40 (ucast b2) OR
       push_bit 48 (ucast b1) OR push_bit 56 (ucast b0))"
| "get_be64 _ = Panic IndexOutOfRange"

definition put_be16 :: "u16 \<Rightarrow> bytes" where
  "put_be16 v = [ucast (drop_bit 8 v), ucast v]"

fun get_be16 :: "bytes \<Rightarrow> u16 go" where
  "get_be16 (b0 # b1 # _) = Ret (ucast b1 OR push_bit 8 (ucast b0))"
| "get_be16 _ = Panic IndexOutOfRange"

lemma length_put_be64 [simp]: "length (put_be64 v) = 8"
  by (simp add: put_be64_def)

lemma length_put_be16 [simp]: "length (put_be16 v) = 2"
  by (simp add: put_be16_def)

lemma bit_ucast_byte_u64 [simp]: "bit (ucast (b :: byte) :: u64) n \<longleftrightarrow> bit b n"
  using bit_imp_le_length [of b n] by (auto simp: bit_simps)

lemma bit_ucast_byte_u16 [simp]: "bit (ucast (b :: byte) :: u16) n \<longleftrightarrow> bit b n"
  using bit_imp_le_length [of b n] by (auto simp: bit_simps)

lemma ucast_byte_u64: "ucast (ucast (w :: u64) :: byte) = take_bit 8 w"
  by (rule bit_word_eqI) (auto simp: bit_simps)

lemma take_bit_join:
  "take_bit k (w :: u64) OR push_bit k (take_bit 8 (drop_bit k w)) = take_bit (k + 8) w"
  by (rule bit_word_eqI) (auto simp: bit_simps)

lemma get_put_be64: "get_be64 (put_be64 v @ bs) = Ret v"
proof -
  have "take_bit 64 v = v" by (rule bit_word_eqI) (auto simp: bit_simps)
  then show ?thesis
    using take_bit_join [of 8 v] take_bit_join [of 16 v] take_bit_join [of 24 v]
      take_bit_join [of 32 v] take_bit_join [of 40 v] take_bit_join [of 48 v]
      take_bit_join [of 56 v]
    by (simp add: put_be64_def ucast_byte_u64 or.assoc [symmetric])
qed

lemma get_put_be16: "get_be16 (put_be16 v @ bs) = Ret v"
proof -
  have "ucast (ucast v :: byte) OR push_bit 8 (ucast (ucast (drop_bit 8 v) :: byte)) = v"
    by (rule bit_word_eqI) (auto simp: bit_simps)
  then show ?thesis by (simp add: put_be16_def)
qed

lemmas get_put_be [simp] = get_put_be64 get_put_be16
  get_put_be64 [where bs = "[]", simplified] get_put_be16 [where bs = "[]", simplified]

section \<open>The built-in copy\<close>

text \<open>\<open>copy(dst, src)\<close> overwrites a prefix of \<open>dst\<close> and returns the number of bytes copied.\<close>

definition go_copy :: "'a list \<Rightarrow> 'a list \<Rightarrow> 'a list" where
  "go_copy dst src = take (length dst) src @ drop (length src) dst"

definition copy_count :: "'a list \<Rightarrow> 'a list \<Rightarrow> nat" where
  "copy_count dst src = min (length dst) (length src)"

lemma length_go_copy [simp]: "length (go_copy dst src) = length dst"
  by (simp add: go_copy_def)

lemma go_copy_Nil [simp]: "go_copy dst src = [] \<longleftrightarrow> dst = []"
  by (metis length_go_copy length_0_conv)

lemma go_copy_fits: "length src \<le> length dst \<Longrightarrow> go_copy dst src = src @ drop (length src) dst"
  by (simp add: go_copy_def)

lemma go_copy_same_length [simp]: "length src = length dst \<Longrightarrow> go_copy dst src = src"
  by (simp add: go_copy_def)

lemma take_go_copy: "take (copy_count dst src) (go_copy dst src) = take (length dst) src"
  by (simp add: go_copy_def copy_count_def min_def)

section \<open>A byte slice as a sequence of bits\<close>

text \<open>
  \<open>bs[p>>3] >> (p & 7) & 1\<close> reads bit \<open>p\<close>; \<open>bs[p>>3] |= 1 << (p & 7)\<close> sets it and
  panics out of range.
\<close>

definition bit_of :: "bytes \<Rightarrow> nat \<Rightarrow> bool" where
  "bit_of bs p = bit (bs ! (p div 8)) (p mod 8)"

definition bit_at :: "bytes \<Rightarrow> nat \<Rightarrow> byte" where
  "bit_at bs p = drop_bit (p mod 8) (bs ! (p div 8)) AND 1"

definition or_bit :: "bytes \<Rightarrow> nat \<Rightarrow> bytes go" where
  "or_bit bs p =
     (if p div 8 < length bs
      then Ret (bs[p div 8 := bs ! (p div 8) OR push_bit (p mod 8) 1])
      else Panic IndexOutOfRange)"

definition get_bit :: "bytes \<Rightarrow> nat \<Rightarrow> byte go" where
  "get_bit bs p = (if p div 8 < length bs then Ret (bit_at bs p) else Panic IndexOutOfRange)"

lemma and_one_byte: "(w :: byte) AND 1 = (if bit w 0 then 1 else 0)"
  by (simp add: and_one_eq mod_2_eq_odd bit_0)

lemma bit_at_eq: "bit_at bs p = (if bit_of bs p then 1 else 0)"
  by (simp add: bit_at_def bit_of_def and_one_byte bit_drop_bit_eq)

lemma or_bit_ok:
  assumes "p < 8 * length bs"
  shows "\<exists>bs'. or_bit bs p = Ret bs' \<and> length bs' = length bs \<and>
    (\<forall>k. k < 8 * length bs \<longrightarrow> bit_of bs' k = (k = p \<or> bit_of bs k))"
proof -
  have p: "p div 8 < length bs" using assms by (simp add: less_mult_imp_div_less mult.commute)
  have eq: "k div 8 = p div 8 \<Longrightarrow> k mod 8 = p mod 8 \<longleftrightarrow> k = p" for k
    by (metis mult_div_mod_eq)
  show ?thesis
    using p by (auto simp: or_bit_def bit_of_def nth_list_update bit_or_iff bit_push_bit_iff
      bit_exp_iff eq)
qed

section \<open>Decimal notation\<close>

definition digit_char :: "nat \<Rightarrow> char" where
  "digit_char d = ''0123456789'' ! d"

fun dec_nat :: "nat \<Rightarrow> string" where
  "dec_nat n = (if n < 10 then [digit_char n] else dec_nat (n div 10) @ [digit_char (n mod 10)])"

declare dec_nat.simps [simp del]

definition dec_int :: "int \<Rightarrow> string" where
  "dec_int i = (if i < 0 then CHR ''-'' # dec_nat (nat (- i)) else dec_nat (nat i))"

definition digit_val :: "char \<Rightarrow> nat option" where
  "digit_val c = (if 48 \<le> (of_char c :: nat) \<and> (of_char c :: nat) \<le> 57
     then Some (of_char c - 48) else None)"

fun parse_digits :: "nat \<Rightarrow> string \<Rightarrow> nat option" where
  "parse_digits acc [] = Some acc"
| "parse_digits acc (c # cs) =
     (case digit_val c of None \<Rightarrow> None | Some d \<Rightarrow> parse_digits (10 * acc + d) cs)"

definition parse_nat :: "string \<Rightarrow> nat option" where
  "parse_nat s = (if s = [] then None else parse_digits 0 s)"

lemma digit_cases: "d < 10 \<Longrightarrow> d \<in> {0,1,2,3,4,5,6,7,8,9::nat}"
  by auto

lemma digit_val_char [simp]: "d < 10 \<Longrightarrow> digit_val (digit_char d) = Some d"
  by (drule digit_cases) (auto simp: digit_val_def digit_char_def)

lemma parse_digits_append:
  "parse_digits acc (s @ t) =
     (case parse_digits acc s of None \<Rightarrow> None | Some a \<Rightarrow> parse_digits a t)"
  by (induction s arbitrary: acc) (auto split: option.splits)

lemma dec_nat_nonempty [simp]: "dec_nat n \<noteq> []"
  by (subst dec_nat.simps) simp

lemma parse_digits_dec_nat: "parse_digits 0 (dec_nat n) = Some n"
proof (induction n rule: dec_nat.induct)
  case (1 n)
  then show ?case
    by (subst dec_nat.simps) (auto simp: parse_digits_append)
qed

lemma parse_nat_dec_nat [simp]: "parse_nat (dec_nat n) = Some n"
  by (simp add: parse_nat_def parse_digits_dec_nat)

lemma set_dec_nat: "set (dec_nat n) \<subseteq> {c. digit_val c \<noteq> None}"
proof (induction n rule: dec_nat.induct)
  case (1 n)
  then show ?case by (subst dec_nat.simps) auto
qed

lemma not_in_dec_nat: "digit_val c = None \<Longrightarrow> c \<notin> set (dec_nat n)"
  using set_dec_nat [of n] by auto

lemma dec_nat_inj: "dec_nat m = dec_nat n \<longleftrightarrow> m = n"
  by (metis option.inject parse_nat_dec_nat)

text \<open>The bytes of an ASCII string constant.\<close>

definition str_bytes :: "string \<Rightarrow> bytes" where
  "str_bytes s = map of_char s"

end
