(* ===== verification/Go_Time.thy ===== *)
theory Go_Time
  imports Go_Bytes
begin

text \<open>
  The parts of Go's \<open>time\<close> package the program uses. Every \<open>time.Time\<close> of the program
  comes from \<open>time.Now\<close> or a ticker, possibly through \<open>Add\<close>, so it carries a wall-clock
  and a monotonic reading, both in nanoseconds here. Wall-clock readings feed
  \<open>UnixMilli\<close> and \<open>UnixNano\<close>; differences and comparisons use the monotonic reading.
\<close>

record gotime =
  wall :: int
  mono :: int

type_synonym duration = int

definition Millisecond :: duration where [simp]: "Millisecond = 1000000"
definition Second :: duration where [simp]: "Second = 1000000000"
definition Minute :: duration where [simp]: "Minute = 60000000000"

definition UnixMilli :: "gotime \<Rightarrow> int" where
  "UnixMilli t = wrap64 (wall t div 1000000)"

definition UnixNano :: "gotime \<Rightarrow> int" where
  "UnixNano t = wrap64 (wall t)"

definition time_add :: "gotime \<Rightarrow> duration \<Rightarrow> gotime" where
  "time_add t d = \<lparr>wall = wall t + d, mono = mono t + d\<rparr>"

text \<open>\<open>Sub\<close> saturates at the largest and the smallest \<open>Duration\<close>.\<close>

definition time_sub :: "gotime \<Rightarrow> gotime \<Rightarrow> duration" where
  "time_sub t u = max (- (2 ^ 63)) (min (2 ^ 63 - 1) (mono t - mono u))"

definition time_before :: "gotime \<Rightarrow> gotime \<Rightarrow> bool" where
  "time_before t u \<longleftrightarrow> mono t < mono u"

definition time_after :: "gotime \<Rightarrow> gotime \<Rightarrow> bool" where
  "time_after t u \<longleftrightarrow> mono u < mono t"

definition time_equal :: "gotime \<Rightarrow> gotime \<Rightarrow> bool" where
  "time_equal t u \<longleftrightarrow> mono t = mono u"

text \<open>\<open>Duration.Milliseconds\<close> truncates; \<open>time.Duration(n) * time.Millisecond\<close> wraps.\<close>

definition Milliseconds :: "duration \<Rightarrow> int" where
  "Milliseconds d = d sdiv 1000000"

definition duration_ms :: "int \<Rightarrow> duration" where
  "duration_ms n = wrap64 (n * 1000000)"

text \<open>The instants whose readings fit an \<open>int64\<close> of nanoseconds, from the epoch on.\<close>

definition time_ok :: "gotime \<Rightarrow> bool" where
  "time_ok t \<longleftrightarrow> 0 \<le> wall t \<and> wall t < 2 ^ 62"

lemma UnixMilli_ok: "0 \<le> wall t \<Longrightarrow> wall t < 2 ^ 63 \<Longrightarrow> UnixMilli t = wall t div 1000000"
  by (simp add: UnixMilli_def go_simps)

lemma UnixNano_ok: "0 \<le> wall t \<Longrightarrow> wall t < 2 ^ 63 \<Longrightarrow> UnixNano t = wall t"
  by (simp add: UnixNano_def go_simps)

lemma Milliseconds_nonneg: "0 \<le> d \<Longrightarrow> Milliseconds d = d div 1000000"
  by (simp add: Milliseconds_def sdiv_nonneg)

lemma Milliseconds_duration_ms:
  assumes "0 \<le> n" "n < 2 ^ 43"
  shows "Milliseconds (duration_ms n) = n"
proof -
  have "duration_ms n = n * 1000000"
    using assms by (simp add: duration_ms_def go_simps)
  then show ?thesis using assms by (simp add: Milliseconds_nonneg)
qed

lemma time_add_simps [simp]: "wall (time_add t d) = wall t + d" "mono (time_add t d) = mono t + d"
  by (simp_all add: time_add_def)

lemma time_sub_exact: "int64_range (mono t - mono u) \<Longrightarrow> time_sub t u = mono t - mono u"
  by (simp add: time_sub_def int64_range_def)

end
