(* ===== verification/Config.thy ===== *)
theory Config
  imports Go_Time
begin

text \<open>
  \<open>pkg/magic/config.go\<close>: the package variables as one record, the constants, the
  address builders; and the part of package \<open>net\<close> they meet, IPv4 UDP addresses with
  their printed form and its resolution.
\<close>

section \<open>Configuration\<close>

definition SharedSecret :: bytes where
  "SharedSecret = str_bytes ''EXTREME_POLYMORPHIC_SECRET_2025''"

record config =
  SlotDuration :: duration
  ClientDoubleSendEdgeThresholdMs :: int
  ServerOldPortCloseDelayMs :: int
  ServerPrebindNextPortEnabled :: bool
  CIDObfuscationEnabled :: bool
  ListenAddr :: string
  SyncAddr :: string
  FakeAddrIP :: string
  FakeAddrPort :: int
  TaskRounds :: int
  TransferFileSizeBytes :: int

definition default_config :: config where
  "default_config = \<lparr>SlotDuration = 1000 * Millisecond,
     ClientDoubleSendEdgeThresholdMs = 50, ServerOldPortCloseDelayMs = 50,
     ServerPrebindNextPortEnabled = True, CIDObfuscationEnabled = True,
     ListenAddr = ''192.168.1.3'', SyncAddr = ''192.168.1.2'',
     FakeAddrIP = ''192.0.2.1'', FakeAddrPort = 54321,
     TaskRounds = 10, TransferFileSizeBytes = 100 * 1024 * 1024\<rparr>"

lemma default_config_simps:
  "SlotDuration default_config = 1000000000" "ClientDoubleSendEdgeThresholdMs default_config = 50"
  "ServerOldPortCloseDelayMs default_config = 50" "ServerPrebindNextPortEnabled default_config"
  "CIDObfuscationEnabled default_config"
  by (simp_all add: default_config_def)

definition FixedCIDLen :: nat where [simp]: "FixedCIDLen = 16"
definition LoopbackPrefix :: string where "LoopbackPrefix = ''192.168.2''"
definition SeedBits :: nat where [simp]: "SeedBits = 16"
definition SeedBytes :: nat where [simp]: "SeedBytes = SeedBits div 8"
definition PayloadBits :: nat where [simp]: "PayloadBits = 56"
definition PayloadBytes :: nat where [simp]: "PayloadBytes = PayloadBits div 8"
definition EncodedBits :: nat where [simp]: "EncodedBits = PayloadBits * 2"
definition EncodedBytes :: nat where [simp]: "EncodedBytes = EncodedBits div 8"
definition OutputBytes :: nat where [simp]: "OutputBytes = SeedBytes + EncodedBytes"

definition LoopbackIP :: "int \<Rightarrow> string" where
  "LoopbackIP lastOctet = LoopbackPrefix @ ''.'' @ dec_int lastOctet"

definition LoopbackAddr :: "int \<Rightarrow> int \<Rightarrow> string" where
  "LoopbackAddr lastOctet port =
     LoopbackPrefix @ ''.'' @ dec_int lastOctet @ '':'' @ dec_int port"

definition LoopbackAddr2 :: "config \<Rightarrow> int \<Rightarrow> string" where
  "LoopbackAddr2 cfg port = ListenAddr cfg @ '':'' @ dec_int port"

section \<open>UDP addresses\<close>

text \<open>\<open>net.UDPAddr\<close> with an IPv4 address; \<open>String\<close> prints \<open>a.b.c.d:port\<close>.\<close>

datatype udp_addr = UDPAddr (addr_ip: bytes) (addr_port: int)

fun join :: "string \<Rightarrow> string list \<Rightarrow> string" where
  "join sep [] = []"
| "join sep [s] = s"
| "join sep (s # ss) = s @ sep @ join sep ss"

definition ip_string :: "bytes \<Rightarrow> string" where
  "ip_string ip = join ''.'' (map (\<lambda>b. dec_nat (unat b)) ip)"

fun udp_string :: "udp_addr \<Rightarrow> string" where
  "udp_string (UDPAddr ip port) = ip_string ip @ '':'' @ dec_int port"

fun split_on :: "char \<Rightarrow> string \<Rightarrow> string list" where
  "split_on c [] = [[]]"
| "split_on c (x # xs) =
     (if x = c then [] # split_on c xs
      else case split_on c xs of [] \<Rightarrow> [[x]] | y # ys \<Rightarrow> (x # y) # ys)"

text \<open>
  One dotted field of an IPv4 literal: one to three digits, no leading zero, at most 255.
\<close>

definition parse_octet :: "string \<Rightarrow> byte option" where
  "parse_octet s =
     (if length s > 3 \<or> (length s > 1 \<and> hd s = CHR ''0'') then None
      else case parse_nat s of None \<Rightarrow> None
        | Some n \<Rightarrow> if n \<le> 255 then Some (of_nat n) else None)"

fun parse_ipv4 :: "string list \<Rightarrow> bytes option" where
  "parse_ipv4 [a, b, c, d] =
     (case (parse_octet a, parse_octet b, parse_octet c, parse_octet d) of
        (Some w, Some x, Some y, Some z) \<Rightarrow> Some [w, x, y, z] | _ \<Rightarrow> None)"
| "parse_ipv4 _ = None"

text \<open>
  \<open>net.ResolveUDPAddr("udp", s)\<close> on a literal \<open>a.b.c.d:port\<close>. Host names and service
  names would ask a resolver; they are no address here.
\<close>

definition resolveUDPAddr :: "string \<Rightarrow> udp_addr option" where
  "resolveUDPAddr s =
     (case split_on (CHR '':'') s of
        [host, port] \<Rightarrow>
          (case (parse_ipv4 (split_on (CHR ''.'') host), parse_nat port) of
             (Some ip, Some p) \<Rightarrow> if p \<le> 65535 then Some (UDPAddr ip (int p)) else None
           | _ \<Rightarrow> None)
      | _ \<Rightarrow> None)"

section \<open>Printed addresses resolve to themselves\<close>

lemma split_on_no: "c \<notin> set s \<Longrightarrow> split_on c s = [s]"
  by (induction s) auto

lemma split_on_sep: "c \<notin> set s \<Longrightarrow> split_on c (s @ c # t) = s # split_on c t"
  by (induction s) auto

lemmas split_on_simps = split_on_no split_on_sep

lemma dec_nat_no_sep [simp]:
  "CHR '':'' \<notin> set (dec_nat n)" "CHR ''.'' \<notin> set (dec_nat n)" "CHR ''-'' \<notin> set (dec_nat n)"
  by (rule not_in_dec_nat, simp add: digit_val_def)+

lemma length_dec_nat: "n < 10 ^ Suc k \<Longrightarrow> length (dec_nat n) \<le> Suc k"
proof (induction k arbitrary: n)
  case 0
  then show ?case by (subst dec_nat.simps) simp
next
  case (Suc k)
  have "n div 10 < 10 ^ Suc k" using Suc.prems by (simp add: less_mult_imp_div_less)
  then have "length (dec_nat (n div 10)) \<le> Suc k" by (rule Suc.IH)
  then show ?case by (subst dec_nat.simps) simp
qed

lemma digit_char_nonzero: "0 < d \<Longrightarrow> d < 10 \<Longrightarrow> digit_char d \<noteq> CHR ''0''"
  by (drule digit_cases) (auto simp: digit_char_def)

lemma hd_dec_nat: "0 < n \<Longrightarrow> hd (dec_nat n) \<noteq> CHR ''0''"
proof (induction n rule: dec_nat.induct)
  case (1 n)
  then show ?case
    by (subst dec_nat.simps) (auto simp: digit_char_nonzero div_greater_zero_iff)
qed

lemma parse_octet_dec_nat: "n \<le> 255 \<Longrightarrow> parse_octet (dec_nat n) = Some (of_nat n)"
proof -
  assume n: "n \<le> 255"
  then have "length (dec_nat n) \<le> 3" using length_dec_nat [of n 2] by simp
  moreover have "length (dec_nat n) > 1 \<longrightarrow> hd (dec_nat n) \<noteq> CHR ''0''"
    using hd_dec_nat [of n] by (cases "n = 0") (simp_all add: dec_nat.simps [of 0])
  ultimately show ?thesis using n by (auto simp: parse_octet_def)
qed

lemma parse_octet_byte [simp]: "parse_octet (dec_nat (unat (b :: byte))) = Some b"
proof -
  have "unat b < 2 ^ LENGTH(8)" by (rule unsigned_less)
  then show ?thesis using parse_octet_dec_nat [of "unat b"] by simp
qed

lemma ip_string_no_colon [simp]: "CHR '':'' \<notin> set (ip_string ip)"
proof -
  have "CHR '':'' \<notin> set (join ''.'' ss)" if "\<forall>s \<in> set ss. CHR '':'' \<notin> set s" for ss
    using that by (induction "''.''" ss rule: join.induct) auto
  then show ?thesis by (simp add: ip_string_def)
qed

lemma parse_ipv4_ip_string: "parse_ipv4 (split_on (CHR ''.'') (ip_string [a, b, c, d])) = Some [a, b, c, d]"
  by (simp add: ip_string_def split_on_simps)

lemma dec_int_of_nat [simp]: "dec_int (int n) = dec_nat n"
  by (simp add: dec_int_def)

lemma dec_int_nonneg: "0 \<le> i \<Longrightarrow> dec_int i = dec_nat (nat i)"
  by (simp add: dec_int_def)

lemma resolve_udp_string:
  assumes "length ip = 4" "0 \<le> port" "port \<le> 65535"
  shows "resolveUDPAddr (udp_string (UDPAddr ip port)) = Some (UDPAddr ip port)"
proof -
  obtain a b c d where ip: "ip = [a, b, c, d]"
    using assms(1) by (auto simp: length_Suc_conv eval_nat_numeral)
  have port: "dec_int port = dec_nat (nat port)" using assms(2) by (rule dec_int_nonneg)
  show ?thesis
    using assms(2,3) unfolding ip
    by (simp add: resolveUDPAddr_def port split_on_simps parse_ipv4_ip_string)
qed

lemma dec_nat_192_168_2: "dec_nat 192 = ''192''" "dec_nat 168 = ''168''" "dec_nat 2 = ''2''"
  by (simp_all add: dec_nat.simps digit_char_def)

lemma unat_word_of_int_byte: "0 \<le> k \<Longrightarrow> k \<le> 255 \<Longrightarrow> unat (word_of_int k :: byte) = nat k"
  by (simp add: unat_eq_nat_uint uint_word_of_int_eq take_bit_int_eq_self del: nat_uint_eq)

lemma LoopbackAddr_eq:
  assumes "0 \<le> k" "k \<le> 255"
  shows "LoopbackAddr k port = udp_string (UDPAddr [192, 168, 2, word_of_int k] port)"
  using assms
  by (simp add: LoopbackAddr_def LoopbackPrefix_def ip_string_def dec_nat_192_168_2
      dec_int_nonneg unat_word_of_int_byte)

lemma resolve_LoopbackAddr:
  assumes "0 \<le> k" "k \<le> 255" "0 \<le> port" "port \<le> 65535"
  shows "resolveUDPAddr (LoopbackAddr k port) = Some (UDPAddr [192, 168, 2, word_of_int k] port)"
  using assms by (simp add: LoopbackAddr_eq resolve_udp_string del: udp_string.simps)

lemma udp_string_inj:
  assumes "udp_string a = udp_string b"
    and "length (addr_ip a) = 4" "0 \<le> addr_port a" "addr_port a \<le> 65535"
    and "length (addr_ip b) = 4" "0 \<le> addr_port b" "addr_port b \<le> 65535"
  shows "a = b"
  using assms resolve_udp_string [of "addr_ip a" "addr_port a"]
    resolve_udp_string [of "addr_ip b" "addr_port b"]
  by (metis option.inject udp_addr.collapse)

end
