(* ===== verification/Hopping.thy ===== *)
theory Hopping
  imports Config
begin

text \<open>
  Address hopping (\<open>pkg/magic/algo.go\<close>): the FNV-1a hash of \<open>hash/fnv\<close>, the address
  of a time slot, the delay to the next slot boundary. The lemmas reduce both functions
  to the number of the slot an instant lies in, which is what client and server agree on.
\<close>

section \<open>FNV-1a\<close>

definition fnv_offset64 :: u64 where "fnv_offset64 = 14695981039346656037"
definition fnv_prime64 :: u64 where "fnv_prime64 = 1099511628211"

text \<open>\<open>fnv.New64a\<close>'s \<open>Write\<close> on a running sum.\<close>

definition fnv_step :: "u64 \<Rightarrow> byte \<Rightarrow> u64" where
  "fnv_step h b = (h XOR ucast b) * fnv_prime64"

definition fnv_write :: "u64 \<Rightarrow> bytes \<Rightarrow> u64" where
  "fnv_write h bs = foldl fnv_step h bs"

definition sharedSecretHash :: u64 where
  "sharedSecretHash = fnv_write fnv_offset64 SharedSecret"

lemma fnv_write_append: "fnv_write h (xs @ ys) = fnv_write (fnv_write h xs) ys"
  by (simp add: fnv_write_def)

text \<open>The prime is odd, so a step loses nothing: different bytes give different sums.\<close>

lemma fnv_prime64_inverse: "fnv_prime64 * 14886173955864302971 = 1"
  by (simp add: fnv_prime64_def)

lemma mult_fnv_prime64_cancel: "a * fnv_prime64 = b * fnv_prime64 \<longleftrightarrow> a = b"
proof -
  have "(c * fnv_prime64) * 14886173955864302971 = c" for c
    by (simp only: mult.assoc fnv_prime64_inverse mult_1_right)
  then show ?thesis by metis
qed

lemma xor_right_cancel: "(h :: u64) XOR a = h XOR b \<longleftrightarrow> a = b"
proof -
  have "h XOR (h XOR c) = c" for c by (simp add: xor.assoc [symmetric])
  then show ?thesis by metis
qed

lemma fnv_step_inj: "fnv_step h a = fnv_step h b \<longleftrightarrow> a = b"
proof -
  have "(ucast a :: u64) = ucast b \<longleftrightarrow> a = b"
    by (metis bit_ucast_byte_u64 bit_word_eqI)
  then show ?thesis by (simp add: fnv_step_def mult_fnv_prime64_cancel xor_right_cancel)
qed

section \<open>The address of a time slot\<close>

definition slot_sum :: "int \<Rightarrow> u64" where
  "slot_sum timeSlot = fnv_write (fnv_write fnv_offset64 SharedSecret) (put_be64 (u64_of_i64 timeSlot))"

definition GetAddressByTime :: "config \<Rightarrow> gotime \<Rightarrow> udp_addr option go" where
  "GetAddressByTime cfg t =
     (let timestamp = UnixMilli t
      in go_bind (go_div timestamp (Milliseconds (SlotDuration cfg))) (\<lambda>timeSlot.
           let sum = slot_sum timeSlot;
               ip = sum mod 253 + 2;
               port = sum mod 20000 + 20000;
               addrStr = LoopbackAddr (i64_of_u64 ip) (i64_of_u64 port)
           in Ret (resolveUDPAddr addrStr)))"

definition GetNextHopDelay :: "config \<Rightarrow> gotime \<Rightarrow> duration go" where
  "GetNextHopDelay cfg now =
     (let ms = Milliseconds (SlotDuration cfg)
      in go_bind (go_mod (UnixMilli now) ms) (\<lambda>elapsed. Ret (duration_ms (wrap64 (ms - elapsed)))))"

section \<open>Slots\<close>

text \<open>
  The specification: an instant lies in slot number \<open>slot_of\<close>, and a slot has one address.
  A configuration is usable when a slot lasts at least two milliseconds (the code adds one
  millisecond to be inside the next slot) and at most about a century, and it is a whole number of milliseconds, as the flags make it.
\<close>

definition slot_ms :: "config \<Rightarrow> int" where
  "slot_ms cfg = SlotDuration cfg div 1000000"

definition slot_of :: "config \<Rightarrow> gotime \<Rightarrow> int" where
  "slot_of cfg t = wall t div 1000000 div slot_ms cfg"

definition slot_addr :: "int \<Rightarrow> udp_addr" where
  "slot_addr s = UDPAddr [192, 168, 2, word_of_int (uint (slot_sum s) mod 253 + 2)]
     (uint (slot_sum s) mod 20000 + 20000)"

definition config_ok :: "config \<Rightarrow> bool" where
  "config_ok cfg \<longleftrightarrow> 2000000 \<le> SlotDuration cfg \<and> SlotDuration cfg < 2 ^ 61 \<and>
     1000000 dvd SlotDuration cfg"

lemma config_ok_slot_ms: "config_ok cfg \<Longrightarrow> 2 \<le> slot_ms cfg \<and> slot_ms cfg < 2 ^ 42"
  by (auto simp: config_ok_def slot_ms_def)

lemma Milliseconds_slot: "0 \<le> SlotDuration cfg \<Longrightarrow> Milliseconds (SlotDuration cfg) = slot_ms cfg"
  by (simp add: Milliseconds_nonneg slot_ms_def)

lemma time_ok_ms:
  assumes "time_ok t"
  shows "0 \<le> wall t div 1000000" "wall t div 1000000 < 2 ^ 43"
  using assms by (auto simp: time_ok_def)

lemma uint_u64_mod_add:
  assumes "0 < m" "m + k < 9223372036854775808" "0 \<le> k"
  shows "i64_of_u64 (w mod word_of_int m + word_of_int k) = uint w mod m + k"
proof -
  have m: "uint (word_of_int m :: u64) = m" and k: "uint (word_of_int k :: u64) = k"
    using assms by (simp_all add: uint_word_of_int_eq take_bit_int_eq_self)
  have "uint w mod m < m" "0 \<le> uint w mod m" using assms by simp_all
  then have "(uint w mod m + k) mod 18446744073709551616 = uint w mod m + k"
    using assms by (intro mod_pos_pos_trivial) linarith+
  then have u: "uint (w mod word_of_int m + word_of_int k) = uint w mod m + k"
    by (simp add: uint_word_ariths uint_mod m k)
  have "i64_of_u64 (w mod word_of_int m + word_of_int k) = signed_take_bit 63 (uint w mod m + k)"
    unfolding i64_of_u64_def sint_uint u by simp
  also have "\<dots> = uint w mod m + k"
  proof (rule signed_take_bit_int_eq_self)
    show "- (2 ^ 63) \<le> uint w mod m + k"
      using \<open>0 \<le> uint w mod m\<close> assms(3) by (rule order_trans [rotated, OF add_nonneg_nonneg]) simp
    have "uint w mod m + k < 9223372036854775808"
      using \<open>uint w mod m < m\<close> assms(2) by linarith
    then show "uint w mod m + k < 2 ^ 63" by simp
  qed
  finally show ?thesis .
qed

lemma slot_sum_ip_port:
  "i64_of_u64 (slot_sum s mod 253 + 2) = uint (slot_sum s) mod 253 + 2"
  "i64_of_u64 (slot_sum s mod 20000 + 20000) = uint (slot_sum s) mod 20000 + 20000"
  using uint_u64_mod_add [of 253 2 "slot_sum s"] uint_u64_mod_add [of 20000 20000 "slot_sum s"]
  by simp_all

lemma resolve_slot_addr:
  "resolveUDPAddr (LoopbackAddr (uint (slot_sum s) mod 253 + 2) (uint (slot_sum s) mod 20000 + 20000))
     = Some (slot_addr s)"
proof -
  let ?i = "uint (slot_sum s) mod 253" and ?p = "uint (slot_sum s) mod 20000"
  have "0 \<le> ?i" "?i < 253" "0 \<le> ?p" "?p < 20000" by simp_all
  then have "0 \<le> ?i + 2" "?i + 2 \<le> 255" "0 \<le> ?p + 20000" "?p + 20000 \<le> 65535" by linarith+
  then show ?thesis unfolding slot_addr_def by (rule resolve_LoopbackAddr)
qed

lemma GetAddressByTime_slot:
  assumes "1 \<le> slot_ms cfg" "time_ok t" "0 \<le> SlotDuration cfg"
  shows "GetAddressByTime cfg t = Ret (Some (slot_addr (slot_of cfg t)))"
proof -
  note ms = time_ok_ms [OF assms(2)]
  have "UnixMilli t = wall t div 1000000"
    using assms(2) by (simp add: UnixMilli_ok time_ok_def)
  moreover have "go_div (wall t div 1000000) (slot_ms cfg) = Ret (slot_of cfg t)"
    unfolding slot_of_def using ms assms(1) by (intro go_div_nonneg) auto
  ultimately show ?thesis
    using assms by (simp add: GetAddressByTime_def Milliseconds_slot slot_sum_ip_port resolve_slot_addr)
qed

lemma GetNextHopDelay_slot:
  assumes "1 \<le> slot_ms cfg" "slot_ms cfg < 2 ^ 42" "time_ok t" "0 \<le> SlotDuration cfg"
  shows "GetNextHopDelay cfg t =
    Ret ((slot_ms cfg - (wall t div 1000000) mod slot_ms cfg) * 1000000)"
proof -
  let ?e = "(wall t div 1000000) mod slot_ms cfg"
  note ms = time_ok_ms [OF assms(3)]
  have "UnixMilli t = wall t div 1000000"
    using assms(3) by (simp add: UnixMilli_ok time_ok_def)
  moreover have "go_mod (wall t div 1000000) (slot_ms cfg) = Ret ?e"
    using ms assms(1) by (intro go_mod_nonneg) auto
  moreover have "0 \<le> ?e" "?e < slot_ms cfg" using assms(1) by simp_all
  then have "wrap64 (slot_ms cfg - ?e) = slot_ms cfg - ?e"
    and "wrap64 ((slot_ms cfg - ?e) * 1000000) = (slot_ms cfg - ?e) * 1000000"
    using assms(2) by (simp_all add: wrap64_small)
  ultimately show ?thesis
    using assms by (simp add: GetNextHopDelay_def Milliseconds_slot duration_ms_def Let_def)
qed

text \<open>From any instant, the delay leads to the first millisecond of the next slot.\<close>

lemma slot_of_after_delay:
  assumes "1 \<le> slot_ms cfg" "0 \<le> e" "e \<le> slot_ms cfg * 1000000 - 1000000"
  shows "slot_of cfg (time_add t ((slot_ms cfg - (wall t div 1000000) mod slot_ms cfg) * 1000000 + e))
    = slot_of cfg t + 1"
proof -
  define m where "m = slot_ms cfg"
  define q where "q = wall t div 1000000"
  define d where "d = (wall t mod 1000000 + e) div 1000000"
  have m: "0 < m" using assms by (simp add: m_def)
  have "wall t = q * 1000000 + wall t mod 1000000" by (simp add: q_def)
  then have "wall t + ((m - q mod m) * 1000000 + e)
      = (wall t mod 1000000 + e) + (q + (m - q mod m)) * 1000000" by algebra
  then have w: "(wall t + ((m - q mod m) * 1000000 + e)) div 1000000 = d + (q + (m - q mod m))"
    by (simp add: d_def)
  have d0: "0 \<le> d" using assms(2) by (simp add: d_def pos_imp_zdiv_nonneg_iff)
  have "wall t mod 1000000 + e < m * 1000000"
    using assms(3) pos_mod_bound [of 1000000 "wall t"] unfolding m_def by linarith
  then have d1: "d < m" by (simp add: d_def div_less_iff_less_mult)
  have "q + (m - q mod m) = (q div m + 1) * m"
    using div_mult_mod_eq [of q m] by (simp add: algebra_simps)
  then have "(d + (q + (m - q mod m))) div m = q div m + 1" using d0 d1 m by simp
  then show ?thesis
    by (simp only: slot_of_def time_add_simps m_def [symmetric] q_def [symmetric] w)
qed

section \<open>Properties\<close>

lemma slot_addr_range:
  "\<exists>x port. slot_addr s = UDPAddr [192, 168, 2, x] port \<and> 2 \<le> unat x \<and> unat x \<le> 254 \<and>
    20000 \<le> port \<and> port < 40000"
proof -
  let ?i = "uint (slot_sum s) mod 253" and ?p = "uint (slot_sum s) mod 20000"
  have b: "0 \<le> ?i" "?i < 253" "0 \<le> ?p" "?p < 20000" by simp_all
  then have "unat (word_of_int (?i + 2) :: byte) = nat (?i + 2)" by (intro unat_word_of_int_byte) linarith+
  then show ?thesis using b unfolding slot_addr_def by (intro exI conjI) auto
qed

lemma config_ok_1: "config_ok cfg \<Longrightarrow> 1 \<le> slot_ms cfg \<and> slot_ms cfg < 2 ^ 42 \<and> 0 \<le> SlotDuration cfg"
  using config_ok_slot_ms [of cfg] by (auto simp: config_ok_def)

lemma config_ok_default: "config_ok default_config" "slot_ms default_config = 1000"
  by (simp_all add: config_ok_def default_config_def slot_ms_def)

text \<open>
  C24. With a usable slot duration, \<open>GetAddressByTime\<close> returns an address of
  192.168.2.2--192.168.2.254 with a port from 20000 to 39999, for every instant, and the same
  one throughout a slot.
\<close>

theorem GetAddressByTime_in_slot:
  assumes "config_ok cfg" "time_ok t"
  shows "\<exists>x port. GetAddressByTime cfg t = Ret (Some (UDPAddr [192, 168, 2, x] port)) \<and>
    2 \<le> unat x \<and> unat x \<le> 254 \<and> 20000 \<le> port \<and> port < 40000 \<and>
    (\<forall>t'. time_ok t' \<and> slot_of cfg t' = slot_of cfg t \<longrightarrow> GetAddressByTime cfg t' = GetAddressByTime cfg t)"
proof -
  have "GetAddressByTime cfg t' = Ret (Some (slot_addr (slot_of cfg t')))" if "time_ok t'" for t'
    using config_ok_1 [OF assms(1)] that by (intro GetAddressByTime_slot) auto
  then show ?thesis using slot_addr_range [of "slot_of cfg t"] assms(2) by auto
qed

theorem GetAddressByTime_in_slot_witness:
  "\<exists>x port. GetAddressByTime default_config \<lparr>wall = 1700000000000000000, mono = 0\<rparr> =
      Ret (Some (UDPAddr [192, 168, 2, x] port)) \<and> 2 \<le> unat x"
  using GetAddressByTime_in_slot [OF config_ok_default(1), of "\<lparr>wall = 1700000000000000000, mono = 0\<rparr>"]
  by (auto simp: time_ok_def)

text \<open>
  C25. \<open>GetNextHopDelay\<close> is positive, at most a slot, and leads from any instant into the
  first millisecond of the next slot.
\<close>

theorem GetNextHopDelay_boundary:
  assumes "config_ok cfg" "time_ok t"
  shows "\<exists>d. GetNextHopDelay cfg t = Ret d \<and> 1000000 \<le> d \<and> d \<le> SlotDuration cfg \<and>
    slot_of cfg (time_add t d) = slot_of cfg t + 1 \<and>
    (wall (time_add t d) div 1000000) mod slot_ms cfg = 0"
proof -
  let ?m = "slot_ms cfg" and ?q = "wall t div 1000000"
  let ?d = "(?m - ?q mod ?m) * 1000000"
  have m: "1 \<le> ?m" "?m < 2 ^ 42" "0 \<le> SlotDuration cfg" "SlotDuration cfg = ?m * 1000000"
    using config_ok_1 [OF assms(1)] assms(1) by (auto simp: config_ok_def slot_ms_def)
  have r: "0 \<le> ?q mod ?m" "?q mod ?m < ?m" using m(1) by simp_all
  have "(wall t + ?d) div 1000000 = ?q + (?m - ?q mod ?m)" by simp
  also have "\<dots> = (?q div ?m + 1) * ?m" using div_mult_mod_eq [of ?q ?m] by (simp add: algebra_simps)
  finally have "(wall (time_add t ?d) div 1000000) mod ?m = 0" by simp
  moreover have "slot_of cfg (time_add t ?d) = slot_of cfg t + 1"
    using slot_of_after_delay [of cfg 0 t] m by simp
  ultimately show ?thesis using GetNextHopDelay_slot [OF m(1,2) assms(2) m(3)] m r by simp
qed

theorem GetNextHopDelay_boundary_witness:
  "\<exists>d. GetNextHopDelay default_config \<lparr>wall = 1700000000250000000, mono = 0\<rparr> = Ret d \<and> d \<le> SlotDuration default_config"
  using GetNextHopDelay_boundary [OF config_ok_default(1), of "\<lparr>wall = 1700000000250000000, mono = 0\<rparr>"]
  by (auto simp: time_ok_def)

text \<open>
  C26. A slot duration below one millisecond, which the flags accept, makes both functions
  panic with a division by zero.
\<close>

theorem short_slot_panics:
  assumes "0 \<le> SlotDuration cfg" "SlotDuration cfg < Millisecond"
  shows "GetAddressByTime cfg t = Panic DivideByZero \<and> GetNextHopDelay cfg t = Panic DivideByZero"
  using assms
  by (simp add: GetAddressByTime_def GetNextHopDelay_def go_div_def go_mod_def Milliseconds_nonneg Let_def)

theorem short_slot_panics_witness:
  "GetAddressByTime (default_config\<lparr>SlotDuration := 0\<rparr>) \<lparr>wall = 0, mono = 0\<rparr> = Panic DivideByZero"
  using short_slot_panics [of "default_config\<lparr>SlotDuration := 0\<rparr>" "\<lparr>wall = 0, mono = 0\<rparr>"] by simp

lemma put_be64_split: "put_be64 v = take 7 (put_be64 v) @ [ucast v]"
  by (simp add: put_be64_def)

lemma take_put_be64: "drop_bit 8 v = drop_bit 8 w \<Longrightarrow> take 7 (put_be64 v) = take 7 (put_be64 w)"
proof -
  assume h: "drop_bit 8 v = drop_bit 8 w"
  have "drop_bit (k + 8) v = drop_bit (k + 8) w" for k
    using arg_cong [OF h, of "drop_bit k"] by (simp add: drop_bit_drop_bit)
  from this [of 48] this [of 40] this [of 32] this [of 24] this [of 16] this [of 8] h
  show ?thesis by (simp add: put_be64_def)
qed

lemma slot_sum_last:
  "slot_sum s = fnv_step (fnv_write (fnv_write fnv_offset64 SharedSecret)
    (take 7 (put_be64 (u64_of_i64 s)))) (ucast (u64_of_i64 s))"
  unfolding slot_sum_def by (subst put_be64_split) (simp add: fnv_write_append, simp add: fnv_write_def)

text \<open>
  Two different slots that agree in all but the last of their eight bytes have different
  hashes: the hash loses nothing of the byte that changes from one slot to the next.
\<close>

theorem near_slots_hash_apart:
  assumes "0 \<le> s" "s < 2 ^ 63" "0 \<le> s'" "s' < 2 ^ 63" "s div 256 = s' div 256"
  shows "slot_sum s = slot_sum s' \<longleftrightarrow> s = s'"
proof
  assume eq: "slot_sum s = slot_sum s'"
  have d: "drop_bit 8 (u64_of_i64 x) = word_of_int (x div 256)" if "0 \<le> x" "x < 2 ^ 63" for x
  proof -
    have "take_bit 63 x = x" using that by (intro take_bit_int_eq_self) simp_all
    then have hi: "bit x m \<Longrightarrow> m < 63" for m by (metis bit_take_bit_iff)
    have "x div 256 = drop_bit 8 x" by (simp add: drop_bit_eq_div)
    then show ?thesis
      using hi by (intro bit_word_eqI) (auto simp: u64_of_i64_def bit_simps add.commute, fastforce)
  qed
  have "take 7 (put_be64 (u64_of_i64 s)) = take 7 (put_be64 (u64_of_i64 s'))"
    using assms by (intro take_put_be64) (simp add: d)
  then have "(ucast (u64_of_i64 s) :: byte) = ucast (u64_of_i64 s')"
    using eq unfolding slot_sum_last [of s] slot_sum_last [of s'] by (simp add: fnv_step_inj)
  moreover have "uint (ucast (u64_of_i64 x) :: byte) = x mod 256" for x
    by (simp add: u64_of_i64_def unsigned_ucast_eq unsigned_of_int take_bit_eq_mod mod_mod_cancel)
  ultimately have "s mod 256 = s' mod 256" by metis
  then show "s = s'" using assms(5) by (metis div_mult_mod_eq)
qed simp

theorem near_slots_hash_apart_witness: "slot_sum 1699999999 \<noteq> slot_sum 1699999998"
  using near_slots_hash_apart [of 1699999999 1699999998] by simp

end
