(* ===== verification/Rand_Shuffle.thy ===== *)
theory Rand_Shuffle
  imports Hopping
begin

text \<open>
  The random generators and the Fisher--Yates loops of \<open>pkg/magic/algo.go\<close>: the linear
  congruential \<open>SimpleRNG\<close>, the methods of \<open>math/rand\<close>'s \<open>Rand\<close> over a source, the
  shuffle both index tables use, \<open>precomputeIndices\<close> with its \<open>sync.Once\<close>, and
  \<open>GenerateMask\<close> with its cache. The contract of a bounded generator is the locale
  \<open>bounded_rng\<close>; the shuffle is proved correct once from it.
\<close>

section \<open>SimpleRNG\<close>

record SimpleRNG = rng_state :: u64

definition NewSimpleRNG :: "u64 \<Rightarrow> SimpleRNG" where
  "NewSimpleRNG seed = \<lparr>rng_state = seed\<rparr>"

definition lcg :: "u64 \<Rightarrow> u64" where
  "lcg state = state * 6364136223846793005 + 1442695040888963407"

definition SimpleRNG_Next :: "SimpleRNG \<Rightarrow> u64 \<times> SimpleRNG" where
  "SimpleRNG_Next r = (let s = lcg (rng_state r) in (s, r\<lparr>rng_state := s\<rparr>))"

definition SimpleRNG_Intn :: "nat \<Rightarrow> SimpleRNG \<Rightarrow> (nat \<times> SimpleRNG) go" where
  "SimpleRNG_Intn n r =
     (if n = 0 then Panic DivideByZero
      else let (v, r') = SimpleRNG_Next r in Ret (unat v mod n, r'))"

section \<open>math/rand\<close>

text \<open>
  A \<open>rand.Rand\<close> draws from a source, here the stream of its \<open>Uint64\<close> values and the
  position reached. Which stream \<open>rand.NewSource\<close> makes from a seed is a parameter
  \<open>newSource\<close> of the definitions that use it. \<open>Int31n\<close> draws again while the value lies
  in the incomplete last block, so it need not return.
\<close>

record go_rand =
  rand_src :: "nat \<Rightarrow> u64"
  rand_pos :: nat

definition rand_New :: "(nat \<Rightarrow> u64) \<Rightarrow> go_rand" where
  "rand_New src = \<lparr>rand_src = src, rand_pos = 0\<rparr>"

definition Rand_Uint64 :: "go_rand \<Rightarrow> u64 \<times> go_rand" where
  "Rand_Uint64 r = (rand_src r (rand_pos r), r\<lparr>rand_pos := Suc (rand_pos r)\<rparr>)"

definition Rand_Int63 :: "go_rand \<Rightarrow> u64 \<times> go_rand" where
  "Rand_Int63 r = (let (v, r') = Rand_Uint64 r in (take_bit 63 v, r'))"

definition Rand_Uint32 :: "go_rand \<Rightarrow> 32 word \<times> go_rand" where
  "Rand_Uint32 r = (let (v, r') = Rand_Int63 r in (ucast (drop_bit 31 v), r'))"

definition Rand_Int31 :: "go_rand \<Rightarrow> nat \<times> go_rand" where
  "Rand_Int31 r = (let (v, r') = Rand_Int63 r in (unat (drop_bit 32 v), r'))"

partial_function (option) reject_above ::
  "(go_rand \<Rightarrow> nat \<times> go_rand) \<Rightarrow> nat \<Rightarrow> go_rand \<Rightarrow> (nat \<times> go_rand) option" where
  "reject_above draw mx r =
     (case draw r of (v, r') \<Rightarrow> if v > mx then reject_above draw mx r' else Some (v, r'))"

definition Rand_Int31n :: "nat \<Rightarrow> go_rand \<Rightarrow> (nat \<times> go_rand) go" where
  "Rand_Int31n n r =
     (if n = 0 then Panic (Explicit ''invalid argument to Int31n'')
      else if n AND (n - 1) = 0
      then let (v, r') = Rand_Int31 r in Ret (v AND (n - 1), r')
      else go_bind (go_of_option (reject_above Rand_Int31 (2 ^ 31 - 1 - 2 ^ 31 mod n) r))
             (\<lambda>(v, r'). Ret (v mod n, r')))"

definition Rand_Int63n :: "nat \<Rightarrow> go_rand \<Rightarrow> (nat \<times> go_rand) go" where
  "Rand_Int63n n r =
     (let draw = (\<lambda>r. case Rand_Int63 r of (v, r') \<Rightarrow> (unat v, r'))
      in if n = 0 then Panic (Explicit ''invalid argument to Int63n'')
         else if n AND (n - 1) = 0
         then let (v, r') = draw r in Ret (v AND (n - 1), r')
         else go_bind (go_of_option (reject_above draw (2 ^ 63 - 1 - 2 ^ 63 mod n) r))
                (\<lambda>(v, r'). Ret (v mod n, r')))"

definition Rand_Intn :: "nat \<Rightarrow> go_rand \<Rightarrow> (nat \<times> go_rand) go" where
  "Rand_Intn n r =
     (if n = 0 then Panic (Explicit ''invalid argument to Intn'')
      else if n \<le> 2 ^ 31 - 1 then Rand_Int31n n r else Rand_Int63n n r)"

section \<open>The Fisher--Yates loop\<close>

text \<open>
  \<open>for i := len-1; i > 0; i-- { j := rng.Intn(i+1); xs[i], xs[j] = xs[j], xs[i] }\<close>,
  as written in \<open>precomputeIndices\<close> and again in \<open>GenerateMask\<close>.
\<close>

definition swap_at :: "'a list \<Rightarrow> nat \<Rightarrow> nat \<Rightarrow> 'a list go" where
  "swap_at xs i j =
     (if i < length xs \<and> j < length xs then Ret (xs[i := xs ! j, j := xs ! i])
      else Panic IndexOutOfRange)"

fun shuffle_down ::
  "(nat \<Rightarrow> 'r \<Rightarrow> (nat \<times> 'r) go) \<Rightarrow> nat \<Rightarrow> 'r \<Rightarrow> 'a list \<Rightarrow> ('a list \<times> 'r) go" where
  "shuffle_down intn 0 r xs = Ret (xs, r)"
| "shuffle_down intn (Suc i) r xs =
     go_bind (intn (Suc i + 1) r) (\<lambda>(j, r').
       go_bind (swap_at xs (Suc i) j) (\<lambda>xs'. shuffle_down intn i r' xs'))"

lemma swap_at_mset: "swap_at xs i j = Ret ys \<Longrightarrow> mset ys = mset xs"
  by (auto simp: swap_at_def mset_swap split: if_splits)

lemma swap_at_length: "swap_at xs i j = Ret ys \<Longrightarrow> length ys = length xs"
  by (auto simp: swap_at_def split: if_splits)

locale bounded_rng =
  fixes intn :: "nat \<Rightarrow> 'r \<Rightarrow> (nat \<times> 'r) go"
  assumes intn_range: "0 < n \<Longrightarrow> intn n r = Ret (j, r') \<Longrightarrow> j < n"
    and intn_no_panic: "0 < n \<Longrightarrow> intn n r \<noteq> Panic p"
begin

lemma shuffle_mset:
  "shuffle_down intn i r xs = Ret (ys, r') \<Longrightarrow> mset ys = mset xs"
  by (induction i arbitrary: r xs) (auto dest!: swap_at_mset)

lemma shuffle_no_panic:
  "i < length xs \<Longrightarrow> shuffle_down intn i r xs \<noteq> Panic p"
proof (induction i arbitrary: r xs)
  case 0
  then show ?case by simp
next
  case (Suc i)
  show ?case
  proof (cases "intn (Suc i + 1) r")
    case (Ret jr)
    obtain j r' where jr: "jr = (j, r')" by (cases jr)
    have "j < Suc i + 1" using Ret unfolding jr by (rule intn_range [rotated]) simp
    then obtain xs' where "swap_at xs (Suc i) j = Ret xs'" "length xs' = length xs"
      using Suc.prems by (auto simp: swap_at_def)
    then show ?thesis using Ret jr Suc by simp
  next
    case (Panic q)
    then show ?thesis using intn_no_panic [of "Suc i + 1" r q] by simp
  qed simp
qed

lemma shuffle_perm:
  assumes "shuffle_down intn (n - 1) r [0..<n] = Ret (ys, r')"
  shows "length ys = n" "distinct ys" "set ys = {..<n}"
proof -
  have m: "mset ys = mset [0..<n]" using assms by (rule shuffle_mset)
  show "length ys = n" using m by (metis mset_eq_length length_upt diff_zero)
  show "distinct ys" using m by (metis mset_eq_imp_distinct_iff distinct_upt)
  show "set ys = {..<n}" using m by (metis mset_eq_setD set_upt atLeast0LessThan)
qed

end

interpretation simple: bounded_rng SimpleRNG_Intn
  by unfold_locales (auto simp: SimpleRNG_Intn_def split: if_splits prod.splits)

lemma and_pred_less: "0 < n \<Longrightarrow> v AND (n - Suc 0) < (n :: nat)"
proof -
  assume n: "0 < n"
  have "int (v AND (n - Suc 0)) \<le> int (n - Suc 0)"
    unfolding of_nat_and_eq by (rule AND_upper2) simp
  then show ?thesis using n by linarith
qed

interpretation mrand: bounded_rng Rand_Intn
proof
  show "0 < n \<Longrightarrow> Rand_Intn n r = Ret (j, r') \<Longrightarrow> j < n" for n r j r'
    by (auto simp: Rand_Intn_def Rand_Int31n_def Rand_Int63n_def Let_def and_pred_less
        split: if_splits prod.splits)
  have "go_of_option m \<noteq> Panic p" for m :: "(nat \<times> go_rand) option" and p by (cases m) auto
  then show "0 < n \<Longrightarrow> Rand_Intn n r \<noteq> Panic p" for n r p
    by (auto simp: Rand_Intn_def Rand_Int31n_def Rand_Int63n_def Let_def go_bind_eq_Panic
        split: if_splits prod.splits)
qed

end
