(* ===== verification/Index_Table.thy ===== *)
theory Index_Table
  imports Rand_Shuffle
begin

text \<open>
  The package state of \<open>pkg/magic/algo.go\<close> and the two routines that fill it:
  \<open>precomputeIndices\<close> (one permutation of the 112 code positions per 16-bit seed, computed
  once) and \<open>GenerateMask\<close> (a 128-bit mask with 64 bits set per address, cached).
\<close>

section \<open>Package state\<close>

record algo_state =
  indicesOnce :: bool
  indicesTable :: "bytes list"
  maskCache :: "string \<Rightarrow> bytes option"

text \<open>\<open>1 << SeedBits\<close>, kept as a constant: the table is never unrolled in a proof.\<close>

definition num_seeds :: nat where "num_seeds = 2 ^ SeedBits"

definition init_algo :: algo_state where
  "init_algo = \<lparr>indicesOnce = False,
     indicesTable = replicate num_seeds (replicate EncodedBits 0), maskCache = (\<lambda>_. None)\<rparr>"

section \<open>precomputeIndices\<close>

text \<open>One row: the body of the loop over the seeds.\<close>

definition index_row :: "(u64 \<Rightarrow> nat \<Rightarrow> u64) \<Rightarrow> nat \<Rightarrow> bytes go" where
  "index_row newSource s =
     (let rng = rand_New (newSource (ucast (of_nat s :: u16) XOR sharedSecretHash));
          (_, rng1) = Rand_Uint64 rng;
          idx = [0..<EncodedBits]
      in go_bind (shuffle_down Rand_Intn (EncodedBits - 1) rng1 idx)
           (\<lambda>(idx', _). Ret (map of_nat idx')))"

fun index_rows :: "(u64 \<Rightarrow> nat \<Rightarrow> u64) \<Rightarrow> nat list \<Rightarrow> bytes list go" where
  "index_rows newSource [] = Ret []"
| "index_rows newSource (s # ss) =
     go_bind (index_row newSource s) (\<lambda>row.
       go_bind (index_rows newSource ss) (\<lambda>rows. Ret (row # rows)))"

definition precomputeIndices :: "(u64 \<Rightarrow> nat \<Rightarrow> u64) \<Rightarrow> algo_state \<Rightarrow> algo_state go" where
  "precomputeIndices newSource g =
     (if indicesOnce g then Ret g
      else go_bind (index_rows newSource [0..<num_seeds]) (\<lambda>tbl.
             Ret (g\<lparr>indicesTable := tbl, indicesOnce := True\<rparr>)))"

definition shuffledIndices ::
  "(u64 \<Rightarrow> nat \<Rightarrow> u64) \<Rightarrow> algo_state \<Rightarrow> u16 \<Rightarrow> (bytes \<times> algo_state) go" where
  "shuffledIndices newSource g rngSeed =
     go_bind (precomputeIndices newSource g) (\<lambda>g'. Ret (indicesTable g' ! unat rngSeed, g'))"

section \<open>GenerateMask\<close>

fun or_bits :: "bytes \<Rightarrow> nat list \<Rightarrow> bytes go" where
  "or_bits bs [] = Ret bs"
| "or_bits bs (p # ps) = go_bind (or_bit bs p) (\<lambda>bs'. or_bits bs' ps)"

definition compute_mask :: "string \<Rightarrow> bytes go" where
  "compute_mask key =
     (let seed = fnv_write (fnv_write fnv_offset64 SharedSecret) (str_bytes key);
          rng = NewSimpleRNG seed
      in go_bind (shuffle_down SimpleRNG_Intn 127 rng [0..<128]) (\<lambda>(indices, _).
           or_bits (replicate 16 0) (take 64 indices)))"

definition GenerateMask :: "algo_state \<Rightarrow> udp_addr \<Rightarrow> (bytes \<times> algo_state) go" where
  "GenerateMask g addr =
     (let key = udp_string addr
      in case maskCache g key of
           Some cached \<Rightarrow> Ret (cached, g)
         | None \<Rightarrow> go_bind (compute_mask key) (\<lambda>mask.
             Ret (mask, g\<lparr>maskCache := (maskCache g)(key \<mapsto> mask)\<rparr>)))"

section \<open>The table rows are permutations\<close>

definition perm_row :: "bytes \<Rightarrow> bool" where
  "perm_row row \<longleftrightarrow> length row = EncodedBits \<and> distinct row \<and> (\<forall>b \<in> set row. unat b < EncodedBits)"

definition table_ready :: "(u64 \<Rightarrow> nat \<Rightarrow> u64) \<Rightarrow> algo_state \<Rightarrow> bool" where
  "table_ready newSource g \<longleftrightarrow>
     indicesOnce g \<and> index_rows newSource [0..<num_seeds] = Ret (indicesTable g)"

text \<open>The invariant of the package state: once the \<open>Once\<close> has fired, the table is there.\<close>

definition algo_inv :: "(u64 \<Rightarrow> nat \<Rightarrow> u64) \<Rightarrow> algo_state \<Rightarrow> bool" where
  "algo_inv newSource g \<longleftrightarrow>
     (indicesOnce g \<longrightarrow> table_ready newSource g) \<and>
     (\<forall>key mask. maskCache g key = Some mask \<longrightarrow> compute_mask key = Ret mask)"

lemma perm_row_map_of_nat:
  assumes "length xs = EncodedBits" "distinct xs" "set xs = {..<EncodedBits}"
  shows "perm_row (map of_nat xs)"
proof -
  have u: "unat (of_nat x :: byte) = x" if "x \<in> set xs" for x
    using that assms(3) by (simp add: unat_of_nat)
  then have "inj_on (of_nat :: nat \<Rightarrow> byte) (set xs)" by (metis inj_onI)
  then show ?thesis
    using assms u by (auto simp: perm_row_def distinct_map)
qed

lemma index_row_perm: "index_row newSource s = Ret row \<Longrightarrow> perm_row row"
  by (auto simp: index_row_def Let_def split: prod.splits
      intro!: perm_row_map_of_nat [simplified]
      dest: mrand.shuffle_perm [where n = EncodedBits, simplified])

lemma index_rows_nth:
  assumes "index_rows newSource ss = Ret rows"
  shows "length rows = length ss \<and> (\<forall>k < length ss. index_row newSource (ss ! k) = Ret (rows ! k))"
  using assms
proof (induction ss arbitrary: rows)
  case Nil
  then show ?case by simp
next
  case (Cons s ss)
  then show ?case by (auto simp: nth_Cons split: nat.split)
qed

lemma u16_less_num_seeds: "unat (w :: u16) < num_seeds"
proof -
  have "unat w < 2 ^ LENGTH(16)" by (rule unsigned_less)
  then show ?thesis by (simp add: num_seeds_def)
qed

lemma table_ready_row:
  "table_ready newSource g \<Longrightarrow> index_row newSource (unat (seed :: u16)) = Ret (indicesTable g ! unat seed)"
  using index_rows_nth [of newSource "[0..<num_seeds]" "indicesTable g"] u16_less_num_seeds [of seed]
  by (simp add: table_ready_def)

lemma table_ready_perm: "table_ready newSource g \<Longrightarrow> perm_row (indicesTable g ! unat (seed :: u16))"
  by (rule index_row_perm, rule table_ready_row)

section \<open>The algorithm state invariant\<close>

lemma algo_inv_init: "algo_inv newSource init_algo"
  by (simp add: algo_inv_def init_algo_def)

lemma precomputeIndices_ready:
  assumes "precomputeIndices newSource g = Ret g'" "algo_inv newSource g"
  shows "table_ready newSource g'" "algo_inv newSource g'" "maskCache g' = maskCache g"
  using assms by (auto simp: precomputeIndices_def algo_inv_def table_ready_def split: if_splits)

text \<open>Once the \<open>Once\<close> has fired, the source is not asked again.\<close>

lemma precomputeIndices_done: "indicesOnce g \<Longrightarrow> precomputeIndices newSource g = Ret g"
  by (simp add: precomputeIndices_def)

lemma shuffledIndices_done:
  "indicesOnce g \<Longrightarrow> shuffledIndices newSource g seed = Ret (indicesTable g ! unat seed, g)"
  by (simp add: shuffledIndices_def precomputeIndices_done)

lemma precomputeIndices_once:
  "table_ready newSource g \<Longrightarrow> precomputeIndices newSource g = Ret g"
  by (simp add: precomputeIndices_done table_ready_def)

lemma shuffledIndices_ready:
  "table_ready newSource g \<Longrightarrow> shuffledIndices newSource g seed = Ret (indicesTable g ! unat seed, g)"
  by (simp add: shuffledIndices_done table_ready_def)

section \<open>The table is computed: the draws end\<close>

text \<open>
  A source is lively when it never stays for ever in the top 128 of the 31-bit values, the
  ones a draw below 128 may reject.
\<close>

definition int31_at :: "(nat \<Rightarrow> u64) \<Rightarrow> nat \<Rightarrow> nat" where
  "int31_at src k = unat (drop_bit 32 (take_bit 63 (src k)))"

definition source_lively :: "(nat \<Rightarrow> u64) \<Rightarrow> bool" where
  "source_lively src \<longleftrightarrow> (\<forall>p. \<exists>k. int31_at src (p + k) < 2 ^ 31 - 128)"

lemma Rand_Int31_at:
  "Rand_Int31 r = (int31_at (rand_src r) (rand_pos r), r\<lparr>rand_pos := Suc (rand_pos r)\<rparr>)"
  by (simp add: Rand_Int31_def Rand_Int63_def Rand_Uint64_def int31_at_def)

lemma reject_above_returns:
  assumes "int31_at (rand_src r) (rand_pos r + k) \<le> mx"
  shows "\<exists>v r'. reject_above Rand_Int31 mx r = Some (v, r') \<and> rand_src r' = rand_src r"
  using assms
proof (induction k arbitrary: r)
  case 0
  then show ?case by (subst reject_above.simps) (simp add: Rand_Int31_at)
next
  case (Suc k)
  let ?r = "r\<lparr>rand_pos := Suc (rand_pos r)\<rparr>"
  show ?case
  proof (cases "int31_at (rand_src r) (rand_pos r) \<le> mx")
    case True
    then show ?thesis by (subst reject_above.simps) (simp add: Rand_Int31_at)
  next
    case False
    have "\<exists>v r'. reject_above Rand_Int31 mx ?r = Some (v, r') \<and> rand_src r' = rand_src ?r"
      by (rule Suc.IH) (use Suc.prems in simp)
    with False show ?thesis by (subst reject_above.simps) (simp add: Rand_Int31_at)
  qed
qed

lemma Rand_Intn_returns:
  assumes "source_lively (rand_src r)" "0 < n" "n \<le> 128"
  shows "\<exists>j r'. Rand_Intn n r = Ret (j, r') \<and> rand_src r' = rand_src r"
proof -
  obtain k where k: "int31_at (rand_src r) (rand_pos r + k) < 2 ^ 31 - 128"
    using assms(1) by (auto simp: source_lively_def)
  have "(2 ^ 31 :: nat) mod n < n" using assms(2) by simp
  then have "int31_at (rand_src r) (rand_pos r + k) \<le> 2 ^ 31 - 1 - 2 ^ 31 mod n"
    using k assms(3) by simp
  from reject_above_returns [OF this] show ?thesis
    using assms by (auto simp: Rand_Intn_def Rand_Int31n_def Rand_Int31_at)
qed

lemma shuffle_mrand_returns:
  assumes "source_lively (rand_src r)" "i < length xs" "i < 128"
  shows "\<exists>ys r'. shuffle_down Rand_Intn i r xs = Ret (ys, r')"
  using assms
proof (induction i arbitrary: r xs)
  case 0
  then show ?case by simp
next
  case (Suc i)
  obtain j r' where j: "Rand_Intn (Suc i + 1) r = Ret (j, r')" "rand_src r' = rand_src r"
    using Rand_Intn_returns [of r "Suc i + 1"] Suc.prems by auto
  then have "j < Suc i + 1" by (intro mrand.intn_range [OF _ j(1)]) simp
  then obtain xs' where xs': "swap_at xs (Suc i) j = Ret xs'" "length xs' = length xs"
    using Suc.prems by (auto simp: swap_at_def)
  have "\<exists>ys r''. shuffle_down Rand_Intn i r' xs' = Ret (ys, r'')"
    by (rule Suc.IH) (use Suc.prems j xs' in simp_all)
  then show ?case using j xs' by simp
qed

lemma index_row_returns:
  assumes "\<And>seed. source_lively (newSource seed)"
  shows "\<exists>row. index_row newSource s = Ret row"
proof -
  let ?src = "newSource (ucast (of_nat s :: u16) XOR sharedSecretHash)"
  obtain ys r' where "shuffle_down Rand_Intn 111 \<lparr>rand_src = ?src, rand_pos = Suc 0\<rparr> [0..<112] = Ret (ys, r')"
    using shuffle_mrand_returns [of "\<lparr>rand_src = ?src, rand_pos = Suc 0\<rparr>" 111 "[0..<112]"] assms
    by auto
  then show ?thesis by (simp add: index_row_def rand_New_def Rand_Uint64_def)
qed

lemma index_rows_returns:
  assumes "\<And>seed. source_lively (newSource seed)"
  shows "\<exists>rows. index_rows newSource ss = Ret rows"
  by (induction ss) (use index_row_returns [OF assms] in auto)

lemma precomputeIndices_returns:
  assumes "\<And>seed. source_lively (newSource seed)"
  shows "\<exists>g'. precomputeIndices newSource g = Ret g'"
  using index_rows_returns [OF assms, where ss = "[0..<num_seeds]"] by (auto simp: precomputeIndices_def)

section \<open>Masks have exactly 64 bits set\<close>

lemma or_bits_ok:
  assumes "\<forall>p \<in> set ps. p < 8 * length bs"
  shows "\<exists>bs'. or_bits bs ps = Ret bs' \<and> length bs' = length bs \<and>
    (\<forall>k < 8 * length bs. bit_of bs' k \<longleftrightarrow> k \<in> set ps \<or> bit_of bs k)"
  using assms
proof (induction ps arbitrary: bs)
  case Nil
  then show ?case by simp
next
  case (Cons p ps)
  obtain b1 where b1: "or_bit bs p = Ret b1" "length b1 = length bs"
      "\<forall>k. k < 8 * length bs \<longrightarrow> bit_of b1 k = (k = p \<or> bit_of bs k)"
    using or_bit_ok [of p bs] Cons.prems by auto
  obtain b2 where "or_bits b1 ps = Ret b2" "length b2 = length b1"
      "\<forall>k < 8 * length b1. bit_of b2 k \<longleftrightarrow> k \<in> set ps \<or> bit_of b1 k"
    using Cons.IH [of b1] Cons.prems b1 by auto
  then show ?case using b1 by auto
qed

lemma bit_of_replicate_zero [simp]: "k < 8 * n \<Longrightarrow> \<not> bit_of (replicate n 0) k"
  by (simp add: bit_of_def less_mult_imp_div_less mult.commute)

lemma shuffle_simple_returns:
  "i < length xs \<Longrightarrow> \<exists>ys r'. shuffle_down SimpleRNG_Intn i r xs = Ret (ys, r')"
proof (induction i arbitrary: r xs)
  case 0
  then show ?case by simp
next
  case (Suc i)
  obtain j r' where j: "SimpleRNG_Intn (Suc i + 1) r = Ret (j, r')"
    by (cases "SimpleRNG_Next r") (simp add: SimpleRNG_Intn_def)
  then have "j < Suc i + 1" by (intro simple.intn_range [OF _ j]) simp
  then obtain xs' where xs': "swap_at xs (Suc i) j = Ret xs'" "length xs' = length xs"
    using Suc.prems by (auto simp: swap_at_def)
  have "\<exists>ys r''. shuffle_down SimpleRNG_Intn i r' xs' = Ret (ys, r'')"
    by (rule Suc.IH) (use Suc.prems xs' in simp)
  then show ?case using j xs' by simp
qed

lemma compute_mask_ok:
  "\<exists>mask. compute_mask key = Ret mask \<and> length mask = 16 \<and> card {k. k < 128 \<and> bit_of mask k} = 64"
proof -
  let ?rng = "NewSimpleRNG (fnv_write (fnv_write fnv_offset64 SharedSecret) (str_bytes key))"
  obtain ys r' where sh: "shuffle_down SimpleRNG_Intn 127 ?rng [0..<128] = Ret (ys, r')"
    using shuffle_simple_returns [of 127 "[0..<128]" ?rng] by auto
  have ys: "length ys = 128" "distinct ys" "set ys = {..<128}"
    using simple.shuffle_perm [where n = 128, simplified, OF sh] by simp_all
  have bound: "\<forall>p \<in> set (take 64 ys). p < 8 * length (replicate 16 (0 :: byte))"
    using ys(3) set_take_subset [of 64 ys] by auto
  obtain mask where m: "or_bits (replicate 16 0) (take 64 ys) = Ret mask" "length mask = 16"
      "\<forall>k < 128. bit_of mask k \<longleftrightarrow> k \<in> set (take 64 ys) \<or> bit_of (replicate 16 0) k"
    using or_bits_ok [OF bound] by auto
  have "{k. k < 128 \<and> bit_of mask k} = set (take 64 ys)"
    using m(3) bound by auto
  then have "card {k. k < 128 \<and> bit_of mask k} = 64"
    using ys distinct_card [of "take 64 ys"] by simp
  then show ?thesis using sh m by (simp add: compute_mask_def)
qed

lemma GenerateMask_cached: "maskCache g (udp_string addr) = Some m \<Longrightarrow> GenerateMask g addr = Ret (m, g)"
  by (simp add: GenerateMask_def)

lemma GenerateMask_ok:
  assumes "algo_inv newSource g"
  shows "\<exists>mask g'. GenerateMask g addr = Ret (mask, g') \<and> algo_inv newSource g' \<and>
    compute_mask (udp_string addr) = Ret mask \<and>
    g' = g\<lparr>maskCache := (maskCache g)(udp_string addr \<mapsto> mask)\<rparr>"
proof (cases "maskCache g (udp_string addr)")
  case None
  obtain mask where "compute_mask (udp_string addr) = Ret mask"
    using compute_mask_ok by blast
  then show ?thesis
    using None assms by (auto simp: GenerateMask_def algo_inv_def table_ready_def)
next
  case (Some mask)
  then have "g\<lparr>maskCache := (maskCache g)(udp_string addr \<mapsto> mask)\<rparr> = g" by (simp add: map_upd_triv)
  then show ?thesis using assms Some by (auto simp: GenerateMask_cached algo_inv_def)
qed

section \<open>Properties\<close>

text \<open>A source that always draws zero, for the witnesses.\<close>

definition zero_source :: "u64 \<Rightarrow> nat \<Rightarrow> u64" where
  "zero_source seed k = 0"

lemma source_lively_zero [simp]: "source_lively (zero_source seed)"
  by (simp add: source_lively_def int31_at_def zero_source_def)

text \<open>
  C13. If the random source of every seed keeps drawing small values, \<open>precomputeIndices\<close>
  ends, and fills the row of every one of the 65536 seeds with the permutation of 0..111
  that the seed's own source draws. It runs once: from then on neither it nor a lookup draws
  anything, whatever the sources would do (not even sources on which the computation
  hangs make a difference), and the table stays.
\<close>

theorem precomputeIndices_fills_table:
  assumes "\<And>seed. source_lively (newSource seed)" "algo_inv newSource g"
  shows "\<exists>g'. precomputeIndices newSource g = Ret g' \<and> algo_inv newSource g' \<and>
    maskCache g' = maskCache g \<and>
    (\<forall>seed :: u16. index_row newSource (unat seed) = Ret (indicesTable g' ! unat seed) \<and>
       perm_row (indicesTable g' ! unat seed)) \<and>
    (\<forall>anySource. precomputeIndices anySource g' = Ret g' \<and>
       (\<forall>seed. shuffledIndices anySource g' seed = Ret (indicesTable g' ! unat seed, g')))"
proof -
  obtain g' where g': "precomputeIndices newSource g = Ret g'"
    using precomputeIndices_returns [of newSource g] assms(1) by blast
  note ready = precomputeIndices_ready [OF g' assms(2)]
  then have "indicesOnce g'" by (simp add: table_ready_def)
  then show ?thesis
    using g' ready table_ready_row [OF ready(1)] table_ready_perm [OF ready(1)]
      precomputeIndices_done shuffledIndices_done by blast
qed

theorem precomputeIndices_fills_table_witness:
  "\<exists>g'. precomputeIndices zero_source init_algo = Ret g' \<and>
    (\<forall>seed :: u16. perm_row (indicesTable g' ! unat seed))"
  using precomputeIndices_fills_table [of zero_source init_algo, OF source_lively_zero algo_inv_init] by blast

text \<open>
  C29. \<open>GenerateMask\<close> returns, for any address, a mask of sixteen bytes with exactly half of
  its 128 bits set, and the cache keeps it: afterwards the address has this mask and nothing
  else of the state has changed. Whatever mask the cache holds for an address is the
  answer, without computing one, so a second call gives the stored mask.
\<close>

theorem GenerateMask_balanced:
  assumes "algo_inv newSource g"
  shows "\<exists>mask g'. GenerateMask g addr = Ret (mask, g') \<and> algo_inv newSource g' \<and>
    length mask = 16 \<and> card {k. k < 128 \<and> bit_of mask k} = 64 \<and>
    g' = g\<lparr>maskCache := (maskCache g)(udp_string addr \<mapsto> mask)\<rparr> \<and>
    (\<forall>h m. maskCache h (udp_string addr) = Some m \<longrightarrow> GenerateMask h addr = Ret (m, h))"
proof -
  obtain mask g' where m: "GenerateMask g addr = Ret (mask, g')" "algo_inv newSource g'"
      "compute_mask (udp_string addr) = Ret mask"
      "g' = g\<lparr>maskCache := (maskCache g)(udp_string addr \<mapsto> mask)\<rparr>"
    using GenerateMask_ok [OF assms] by blast
  then show ?thesis
    using compute_mask_ok [of "udp_string addr"] GenerateMask_cached by auto
qed

theorem GenerateMask_balanced_witness:
  "\<exists>mask g'. GenerateMask init_algo (UDPAddr [192, 168, 2, 7] 20001) = Ret (mask, g') \<and> length mask = 16 \<and>
    GenerateMask g' (UDPAddr [192, 168, 2, 7] 20001) = Ret (mask, g')"
proof -
  let ?addr = "UDPAddr [192, 168, 2, 7] 20001"
  obtain mask g' where m: "GenerateMask init_algo ?addr = Ret (mask, g')" "length mask = 16"
      "g' = init_algo\<lparr>maskCache := (maskCache init_algo)(udp_string ?addr \<mapsto> mask)\<rparr>"
      "\<forall>h m. maskCache h (udp_string ?addr) = Some m \<longrightarrow> GenerateMask h ?addr = Ret (m, h)"
    using GenerateMask_balanced [OF algo_inv_init [of zero_source], of ?addr] by blast
  then have "GenerateMask g' ?addr = Ret (mask, g')" by simp
  then show ?thesis using m(1,2) by blast
qed

end
