(* ===== verification/Cid_Codec.thy ===== *)
theory Cid_Codec
  imports Index_Table
begin

text \<open>
  The connection-ID codec of \<open>pkg/magic/algo.go\<close>: \<open>Obfuscate\<close> spreads 56 payload bits,
  masked with 56 noise bits, over the 112 positions of the seed's table row;
  \<open>Deobfuscate\<close> undoes it. The locale \<open>code_table\<close> states what both rely on, and the
  round trip is proved from it once.
\<close>

section \<open>Obfuscate\<close>

fun noise_bytes :: "u64 \<Rightarrow> nat list \<Rightarrow> bytes" where
  "noise_bytes state [] = []"
| "noise_bytes state (i # is) =
     ucast (drop_bit (8 * (i mod 8)) state) #
       noise_bytes (if i mod 8 = 7 then lcg state else state) is"

fun obf_loop :: "bytes \<Rightarrow> bytes \<Rightarrow> bytes \<Rightarrow> nat list \<Rightarrow> bytes \<Rightarrow> bytes go" where
  "obf_loop payload noise indices [] output = Ret output"
| "obf_loop payload noise indices (i # is) output =
     (let m = bit_at payload i;
          r = bit_at noise i;
          realPos = unat (indices ! i);
          noisePos = unat (indices ! (i + PayloadBits))
      in go_bind (if r = 1 then or_bit output noisePos else Ret output) (\<lambda>output1.
           go_bind (if r XOR m = 1 then or_bit output1 realPos else Ret output1) (\<lambda>output2.
             obf_loop payload noise indices is output2)))"

definition Obfuscate ::
  "(u64 \<Rightarrow> nat \<Rightarrow> u64) \<Rightarrow> algo_state \<Rightarrow> bytes \<Rightarrow> u16 \<Rightarrow> (bytes \<times> algo_state) go" where
  "Obfuscate newSource g data rngSeed =
     (if length data \<noteq> OutputBytes
      then Panic (Explicit ''CID length must be exactly 16 bytes'')
      else
        let payload = take PayloadBytes data;
            state = lcg (ucast rngSeed XOR sharedSecretHash);
            noise = noise_bytes state [0..<PayloadBytes]
        in go_bind (shuffledIndices newSource g rngSeed) (\<lambda>(indices, g').
             go_bind (obf_loop payload noise indices [0..<PayloadBits] (replicate EncodedBytes 0))
               (\<lambda>output. Ret (put_be16 rngSeed @ go_copy (drop SeedBytes data) output, g'))))"

section \<open>Deobfuscate and Matches\<close>

fun deobf_loop :: "bytes \<Rightarrow> bytes \<Rightarrow> nat list \<Rightarrow> bytes \<Rightarrow> bytes go" where
  "deobf_loop cipher indices [] recovered = Ret recovered"
| "deobf_loop cipher indices (i # is) recovered =
     (let realPos = unat (indices ! i);
          noisePos = unat (indices ! (i + PayloadBits))
      in go_bind (get_bit cipher realPos) (\<lambda>valReal.
           go_bind (get_bit cipher noisePos) (\<lambda>valNoise.
             go_bind (if valReal XOR valNoise = 1 then or_bit recovered i else Ret recovered)
               (\<lambda>recovered1. deobf_loop cipher indices is recovered1))))"

definition Deobfuscate ::
  "(u64 \<Rightarrow> nat \<Rightarrow> u64) \<Rightarrow> algo_state \<Rightarrow> bytes \<Rightarrow> (bytes \<times> algo_state) go" where
  "Deobfuscate newSource g data =
     (if length data \<noteq> OutputBytes
      then Panic (Explicit ''Data length must be exactly 16 bytes'')
      else go_bind (get_be16 (take SeedBytes data)) (\<lambda>rngSeed.
        go_bind (shuffledIndices newSource g rngSeed) (\<lambda>(indices, g').
          go_bind (deobf_loop (drop SeedBytes data) indices [0..<PayloadBits]
                     (replicate PayloadBytes 0)) (\<lambda>recovered.
            let zeroed = replicate (length data) 0
            in Ret (go_copy (take PayloadBytes zeroed) recovered @ drop PayloadBytes zeroed, g')))))"

fun bytes_equal_from :: "bytes \<Rightarrow> bytes \<Rightarrow> bool" where
  "bytes_equal_from (v # a) (w # b) = (if v \<noteq> w then False else bytes_equal_from a b)"
| "bytes_equal_from _ _ = True"

definition BytesEqual :: "bytes \<Rightarrow> bytes \<Rightarrow> bool" where
  "BytesEqual a b = (if length a \<noteq> length b then False else bytes_equal_from a b)"

definition Matches :: "bytes \<Rightarrow> bytes \<Rightarrow> bool" where
  "Matches wireCIDDecoded realCID =
     (if length wireCIDDecoded < PayloadBytes \<or> length realCID < PayloadBytes then False
      else BytesEqual (take PayloadBytes wireCIDDecoded) (take PayloadBytes realCID))"

lemma BytesEqual_iff [simp]: "BytesEqual a b \<longleftrightarrow> a = b"
proof -
  have "length a = length b \<Longrightarrow> bytes_equal_from a b \<longleftrightarrow> a = b"
    by (induction a b rule: bytes_equal_from.induct) auto
  then show ?thesis by (auto simp: BytesEqual_def)
qed

lemma Matches_iff:
  "Matches d r \<longleftrightarrow> PayloadBytes \<le> length d \<and> PayloadBytes \<le> length r \<and>
     take PayloadBytes d = take PayloadBytes r"
  by (auto simp: Matches_def)

section \<open>Bits and byte lists\<close>

lemma bytes_eqI:
  assumes "length xs = length ys" "\<And>k. k < 8 * length ys \<Longrightarrow> bit_of xs k = bit_of ys k"
  shows "xs = ys"
proof (rule nth_equalityI [OF assms(1)])
  fix i assume i: "i < length xs"
  show "xs ! i = ys ! i"
  proof (rule bit_word_eqI)
    fix n assume "n < LENGTH(8)"
    then have "(8 * i + n) div 8 = i" "(8 * i + n) mod 8 = n" "8 * i + n < 8 * length ys"
      using i assms(1) by auto
    then show "bit (xs ! i) n = bit (ys ! i) n"
      using assms(2) [of "8 * i + n"] by (simp add: bit_of_def)
  qed
qed

lemma bit_at_xor_one: "bit_at a i XOR bit_at b j = 1 \<longleftrightarrow> bit_of a i \<noteq> bit_of b j"
  by (simp add: bit_at_eq)

lemma bit_at_one: "bit_at a i = 1 \<longleftrightarrow> bit_of a i"
  by (simp add: bit_at_eq)

lemma noise_bytes_length [simp]: "length (noise_bytes state is) = length is"
  by (induction state "is" rule: noise_bytes.induct) auto

section \<open>The codec over a permutation row\<close>

definition real_pos :: "bytes \<Rightarrow> nat \<Rightarrow> nat" where
  "real_pos indices i = unat (indices ! i)"

definition noise_pos :: "bytes \<Rightarrow> nat \<Rightarrow> nat" where
  "noise_pos indices i = unat (indices ! (i + 56))"

lemma obf_loop_Cons:
  "obf_loop payload noise ind (i # is) out =
     go_bind (if bit_of noise i then or_bit out (noise_pos ind i) else Ret out) (\<lambda>o1.
       go_bind (if bit_of noise i \<noteq> bit_of payload i then or_bit o1 (real_pos ind i) else Ret o1)
         (obf_loop payload noise ind is))"
  by (simp add: bit_at_one bit_at_xor_one real_pos_def noise_pos_def)

lemma deobf_loop_Cons:
  assumes "real_pos ind i < 8 * length cipher" "noise_pos ind i < 8 * length cipher"
  shows "deobf_loop cipher ind (i # is) rec =
    go_bind (if bit_of cipher (real_pos ind i) \<noteq> bit_of cipher (noise_pos ind i)
             then or_bit rec i else Ret rec) (deobf_loop cipher ind is)"
  using assms
  by (simp add: get_bit_def less_mult_imp_div_less mult.commute bit_at_xor_one real_pos_def noise_pos_def)

locale code_table =
  fixes row :: "'g \<Rightarrow> u16 \<Rightarrow> bytes" and ready :: "'g \<Rightarrow> bool"
  assumes row_perm: "ready g \<Longrightarrow> perm_row (row g seed)"
begin

lemma row_pos_bound:
  assumes "ready g" "i < 56"
  shows "real_pos (row g seed) i < 112" "noise_pos (row g seed) i < 112"
  using row_perm [OF assms(1), of seed] assms(2)
  by (auto simp: perm_row_def real_pos_def noise_pos_def)

lemma row_pos_inj:
  assumes "ready g" "i < 56" "j < 56"
  shows "real_pos (row g seed) i = real_pos (row g seed) j \<longleftrightarrow> i = j"
    "noise_pos (row g seed) i = noise_pos (row g seed) j \<longleftrightarrow> i = j"
    "real_pos (row g seed) i \<noteq> noise_pos (row g seed) j"
  using row_perm [OF assms(1), of seed] assms(2,3)
  by (auto simp: perm_row_def real_pos_def noise_pos_def nth_eq_iff_index_eq
      simp flip: word_unat_eq_iff)

lemma obf_loop_ok:
  assumes "ready g" "set is \<subseteq> {..<56}" "length out = 14"
  shows "\<exists>out'. obf_loop payload noise (row g seed) is out = Ret out' \<and> length out' = 14 \<and>
    (\<forall>k < 112. bit_of out' k \<longleftrightarrow> bit_of out k \<or>
      (\<exists>i \<in> set is. k = noise_pos (row g seed) i \<and> bit_of noise i \<or>
        k = real_pos (row g seed) i \<and> bit_of noise i \<noteq> bit_of payload i))"
  using assms(2,3)
proof (induction "is" arbitrary: out)
  case Nil
  then show ?case by simp
next
  case (Cons i "is")
  let ?n = "noise_pos (row g seed) i" and ?r = "real_pos (row g seed) i"
  have pos: "?r < 112" "?n < 112" using row_pos_bound [OF assms(1)] Cons.prems(1) by simp_all
  obtain o1 where o1: "(if bit_of noise i then or_bit out ?n else Ret out) = Ret o1"
      "length o1 = 14" "\<forall>k < 112. bit_of o1 k \<longleftrightarrow> bit_of out k \<or> k = ?n \<and> bit_of noise i"
    using or_bit_ok [of ?n out] pos Cons.prems(2) by (cases "bit_of noise i") auto
  obtain o2 where o2: "(if bit_of noise i \<noteq> bit_of payload i then or_bit o1 ?r else Ret o1) = Ret o2"
      "length o2 = 14"
      "\<forall>k < 112. bit_of o2 k \<longleftrightarrow> bit_of o1 k \<or> k = ?r \<and> bit_of noise i \<noteq> bit_of payload i"
    using or_bit_ok [of ?r o1] pos o1(2) by (cases "bit_of noise i \<noteq> bit_of payload i") auto
  obtain o3 where o3: "obf_loop payload noise (row g seed) is o2 = Ret o3" "length o3 = 14"
      "\<forall>k < 112. bit_of o3 k \<longleftrightarrow> bit_of o2 k \<or>
        (\<exists>i \<in> set is. k = noise_pos (row g seed) i \<and> bit_of noise i \<or>
          k = real_pos (row g seed) i \<and> bit_of noise i \<noteq> bit_of payload i)"
    using Cons.IH [of o2] Cons.prems(1) o2(2) by auto
  have "obf_loop payload noise (row g seed) (i # is) out = Ret o3"
    by (simp only: obf_loop_Cons o1(1) o2(1) o3(1) go_bind.simps)
  then show ?case using o1(3) o2(3) o3(2,3) by auto
qed

lemma deobf_loop_ok:
  assumes "ready g" "length cipher = 14" "set is \<subseteq> {..<56}" "length rec = 7"
  shows "\<exists>rec'. deobf_loop cipher (row g seed) is rec = Ret rec' \<and> length rec' = 7 \<and>
    (\<forall>k < 56. bit_of rec' k \<longleftrightarrow> bit_of rec k \<or>
      k \<in> set is \<and> bit_of cipher (real_pos (row g seed) k) \<noteq> bit_of cipher (noise_pos (row g seed) k))"
  using assms(3,4)
proof (induction "is" arbitrary: rec)
  case Nil
  then show ?case by simp
next
  case (Cons i "is")
  let ?n = "noise_pos (row g seed) i" and ?r = "real_pos (row g seed) i"
  have pos: "?r < 112" "?n < 112" "i < 56"
    using row_pos_bound [OF assms(1)] Cons.prems(1) by simp_all
  then have bounds: "?r < 8 * length cipher" "?n < 8 * length cipher"
    using assms(2) by simp_all
  obtain r1 where r1: "(if bit_of cipher ?r \<noteq> bit_of cipher ?n then or_bit rec i else Ret rec) = Ret r1"
      "length r1 = 7"
      "\<forall>k < 56. bit_of r1 k \<longleftrightarrow> bit_of rec k \<or> k = i \<and> bit_of cipher ?r \<noteq> bit_of cipher ?n"
    using or_bit_ok [of i rec] pos Cons.prems(2) by (cases "bit_of cipher ?r \<noteq> bit_of cipher ?n") auto
  obtain r2 where r2: "deobf_loop cipher (row g seed) is r1 = Ret r2" "length r2 = 7"
      "\<forall>k < 56. bit_of r2 k \<longleftrightarrow> bit_of r1 k \<or> k \<in> set is \<and>
        bit_of cipher (real_pos (row g seed) k) \<noteq> bit_of cipher (noise_pos (row g seed) k)"
    using Cons.IH [of r1] Cons.prems(1) r1(2) by auto
  have "deobf_loop cipher (row g seed) (i # is) rec = Ret r2"
    by (simp only: deobf_loop_Cons [OF bounds] r1(1) r2(1) go_bind.simps)
  then show ?case using r1(3) r2(2,3) by (auto simp del: deobf_loop.simps)
qed

text \<open>Decoding the encoded bits gives back the payload, whatever the noise was.\<close>

lemma codec_roundtrip:
  assumes "ready g" "length payload = 7"
  shows "\<exists>out. obf_loop payload noise (row g seed) [0..<56] (replicate 14 0) = Ret out \<and>
    length out = 14 \<and> deobf_loop out (row g seed) [0..<56] (replicate 7 0) = Ret payload"
proof -
  let ?R = "real_pos (row g seed)" and ?N = "noise_pos (row g seed)"
  have sub: "set [0..<56] \<subseteq> {..<56::nat}" by (simp add: atLeast0LessThan)
  obtain out where out: "obf_loop payload noise (row g seed) [0..<56] (replicate 14 0) = Ret out"
      "length out = 14"
      "\<forall>k < 112. bit_of out k \<longleftrightarrow> bit_of (replicate 14 0) k \<or>
        (\<exists>i \<in> set [0..<56]. k = ?N i \<and> bit_of noise i \<or>
          k = ?R i \<and> bit_of noise i \<noteq> bit_of payload i)"
    using obf_loop_ok [OF assms(1) sub, of "replicate 14 0" payload noise seed] by (auto simp del: upt_rec_numeral)
  have bits: "bit_of out (?N i) \<longleftrightarrow> bit_of noise i"
      "bit_of out (?R i) \<longleftrightarrow> (bit_of noise i \<noteq> bit_of payload i)" if "i < 56" for i
    using out(3) row_pos_bound [OF assms(1) that, of seed] row_pos_inj [OF assms(1), of _ _ seed] that
    by (auto simp del: upt_rec_numeral dest: row_pos_inj(3) [OF assms(1), of _ _ seed, THEN not_sym])
  obtain rec where rec: "deobf_loop out (row g seed) [0..<56] (replicate 7 0) = Ret rec"
      "length rec = 7"
      "\<forall>k < 56. bit_of rec k \<longleftrightarrow> bit_of (replicate 7 0) k \<or>
        k \<in> set [0..<56] \<and> bit_of out (?R k) \<noteq> bit_of out (?N k)"
    using deobf_loop_ok [OF assms(1) out(2) sub, of "replicate 7 0" seed] by (auto simp del: upt_rec_numeral)
  have "rec = payload"
    by (rule bytes_eqI) (use rec(2,3) assms(2) bits in \<open>auto simp del: upt_rec_numeral\<close>)
  then show ?thesis using out rec by blast
qed

end

interpretation tbl: code_table
  "\<lambda>g seed. indicesTable g ! unat seed" "table_ready newSource" for newSource
  by unfold_locales (rule table_ready_perm)

section \<open>Obfuscate and Deobfuscate on a computed table\<close>

lemma Obfuscate_ready:
  assumes "table_ready newSource g" "length data = OutputBytes"
  shows "\<exists>out. Obfuscate newSource g data seed = Ret (put_be16 seed @ out, g) \<and> length out = 14 \<and>
    deobf_loop out (indicesTable g ! unat seed) [0..<56] (replicate 7 0) = Ret (take 7 data)"
proof -
  let ?noise = "noise_bytes (lcg (ucast seed XOR sharedSecretHash)) [0..<PayloadBytes]"
  obtain out where
    "obf_loop (take 7 data) ?noise (indicesTable g ! unat seed) [0..<56] (replicate 14 0) = Ret out"
    "length out = 14"
    "deobf_loop out (indicesTable g ! unat seed) [0..<56] (replicate 7 0) = Ret (take 7 data)"
    using tbl.codec_roundtrip [OF assms(1), of "take 7 data" ?noise seed] assms(2) by auto
  then show ?thesis
    using assms
    by (simp add: Obfuscate_def shuffledIndices_ready Let_def
        del: upt_rec_numeral noise_bytes.simps obf_loop.simps deobf_loop.simps)
qed

lemma Deobfuscate_ready:
  assumes "table_ready newSource g" "length out = 14"
    "deobf_loop out (indicesTable g ! unat seed) [0..<56] (replicate 7 0) = Ret rec" "length rec = 7"
  shows "Deobfuscate newSource g (put_be16 seed @ out) = Ret (rec @ replicate 9 0, g)"
proof -
  have "take 2 (put_be16 seed @ out) = put_be16 seed" "drop 2 (put_be16 seed @ out) = out"
    by (simp_all add: put_be16_def)
  then show ?thesis
    using assms
    by (simp add: Deobfuscate_def shuffledIndices_ready Let_def
        del: upt_rec_numeral deobf_loop.simps)
qed

lemma table_ready_unique:
  "table_ready newSource g \<Longrightarrow> table_ready newSource h \<Longrightarrow> indicesTable g = indicesTable h"
  by (simp add: table_ready_def)

lemma codec_between:
  assumes "table_ready newSource g" "table_ready newSource h" "length data = OutputBytes"
  shows "\<exists>wire. Obfuscate newSource g data seed = Ret (wire, g) \<and> length wire = OutputBytes \<and>
    take SeedBytes wire = put_be16 seed \<and>
    Deobfuscate newSource h wire = Ret (take PayloadBytes data @ replicate 9 0, h)"
proof -
  obtain out where out: "Obfuscate newSource g data seed = Ret (put_be16 seed @ out, g)"
      "length out = 14"
      "deobf_loop out (indicesTable g ! unat seed) [0..<56] (replicate 7 0) = Ret (take 7 data)"
    using Obfuscate_ready [OF assms(1,3)] by blast
  have "Deobfuscate newSource h (put_be16 seed @ out) = Ret (take 7 data @ replicate 9 0, h)"
    using Deobfuscate_ready [OF assms(2) out(2)] out(3) assms(3) table_ready_unique [OF assms(1,2)]
    by simp
  then show ?thesis
    using out(1,2) by (simp add: put_be16_def)
qed

lemma shuffledIndices_first:
  assumes "algo_inv newSource g" "\<And>seed. source_lively (newSource seed)"
  obtains g' where "precomputeIndices newSource g = Ret g'" "table_ready newSource g'"
    "algo_inv newSource g'" "\<And>seed. shuffledIndices newSource g seed = shuffledIndices newSource g' seed"
proof -
  obtain g' where g': "precomputeIndices newSource g = Ret g'"
    using precomputeIndices_returns [of newSource g] assms(2) by blast
  note ready = precomputeIndices_ready [OF g' assms(1)]
  have "shuffledIndices newSource g seed = shuffledIndices newSource g' seed" for seed
    by (simp add: shuffledIndices_def g' precomputeIndices_once [OF ready(1)])
  then show ?thesis using that g' ready by blast
qed

lemma Obfuscate_first:
  assumes "\<And>seed. shuffledIndices newSource g seed = shuffledIndices newSource g' seed"
  shows "Obfuscate newSource g data seed = Obfuscate newSource g' data seed"
    "Deobfuscate newSource g data = Deobfuscate newSource g' data"
  by (simp_all only: Obfuscate_def Deobfuscate_def assms)

text \<open>
  The same from any state of either process: the first use computes the table.
\<close>

lemma Deobfuscate_any:
  assumes "algo_inv newSource h" "\<And>seed. source_lively (newSource seed)" "length w = OutputBytes"
  shows "\<exists>rec h'. Deobfuscate newSource h w = Ret (rec @ replicate 9 0, h') \<and> algo_inv newSource h' \<and>
    length rec = PayloadBytes"
proof -
  obtain h' where h': "table_ready newSource h'" "algo_inv newSource h'"
      "\<And>seed. shuffledIndices newSource h seed = shuffledIndices newSource h' seed"
    using shuffledIndices_first [of newSource h] assms(1,2) by metis
  obtain b0 b1 where w: "take 2 w = [b0, b1]"
    using assms(3) by (cases w; cases "tl w") auto
  then obtain seed where seed: "get_be16 (take 2 w) = Ret seed" by simp
  have sub: "set [0..<56] \<subseteq> {..<56::nat}" by (simp add: atLeast0LessThan)
  obtain rec where rec: "deobf_loop (drop 2 w) (indicesTable h' ! unat seed) [0..<56] (replicate 7 0) = Ret rec"
      "length rec = 7"
    using tbl.deobf_loop_ok [OF h'(1) _ sub, of "drop 2 w" "replicate 7 0" seed] assms(3) by auto
  have "Deobfuscate newSource h w = Ret (rec @ replicate 9 0, h')"
    using seed rec assms(3)
    by (simp add: Deobfuscate_def h'(3) shuffledIndices_ready [OF h'(1)] Let_def
        del: upt_rec_numeral deobf_loop.simps)
  then show ?thesis using h'(2) rec(2) by simp
qed

lemma Deobfuscate_total:
  assumes "algo_inv newSource h" "\<And>seed. source_lively (newSource seed)" "length w = OutputBytes"
  shows "\<exists>d h'. Deobfuscate newSource h w = Ret (d, h') \<and> algo_inv newSource h' \<and> length d = OutputBytes"
  using Deobfuscate_any [OF assms] by fastforce

lemma codec_any:
  assumes "algo_inv newSource g" "\<And>seed. source_lively (newSource seed)" "length data = OutputBytes"
  shows "\<exists>wire g'. Obfuscate newSource g data seed = Ret (wire, g') \<and> algo_inv newSource g' \<and>
    length wire = OutputBytes \<and> take SeedBytes wire = put_be16 seed \<and>
    (\<forall>h. algo_inv newSource h \<longrightarrow> (\<exists>h'. algo_inv newSource h' \<and>
      Deobfuscate newSource h wire = Ret (take PayloadBytes data @ replicate 9 0, h')))"
proof -
  obtain g' where g': "table_ready newSource g'" "algo_inv newSource g'"
      "\<And>seed. shuffledIndices newSource g seed = shuffledIndices newSource g' seed"
    using shuffledIndices_first [of newSource g] assms(1,2) by metis
  obtain wire where wire: "Obfuscate newSource g' data seed = Ret (wire, g')"
      "length wire = OutputBytes" "take SeedBytes wire = put_be16 seed"
    using codec_between [OF g'(1) g'(1) assms(3)] by blast
  have "\<exists>h'. algo_inv newSource h' \<and>
      Deobfuscate newSource h wire = Ret (take PayloadBytes data @ replicate 9 0, h')"
    if h: "algo_inv newSource h" for h
  proof -
    obtain h' where h': "table_ready newSource h'" "algo_inv newSource h'"
        "\<And>seed. shuffledIndices newSource h seed = shuffledIndices newSource h' seed"
      using shuffledIndices_first [of newSource h] h assms(2) by metis
    show ?thesis
      using codec_between [OF g'(1) h'(1) assms(3), of seed] wire(1) h'(2)
      by (auto simp: Obfuscate_first [OF h'(3)])
  qed
  then show ?thesis using wire g'(2) by (auto simp: Obfuscate_first [OF g'(3)])
qed

section \<open>Properties\<close>

text \<open>
  C10. What one process encodes, any other decodes: \<open>Obfuscate\<close> turns the sixteen bytes of a
  connection ID into sixteen bytes that start with the seed, and \<open>Deobfuscate\<close>, whatever
  either process did before, recovers the first seven bytes of the ID followed by zeros.
\<close>

theorem codec_roundtrip_between_processes:
  assumes "\<And>seed. source_lively (newSource seed)"
    and "algo_inv newSource sender" "algo_inv newSource receiver" "length cid = 16"
  shows "\<exists>wire sender' receiver'. Obfuscate newSource sender cid seed = Ret (wire, sender') \<and>
    length wire = 16 \<and> take 2 wire = put_be16 seed \<and>
    Deobfuscate newSource receiver wire = Ret (take 7 cid @ replicate 9 0, receiver') \<and>
    algo_inv newSource sender' \<and> algo_inv newSource receiver'"
  using codec_any [OF assms(2,1), of cid seed] assms(3,4) by auto

theorem codec_roundtrip_between_processes_witness:
  "\<exists>wire s r. Obfuscate zero_source init_algo [1, 2, 3, 4, 5, 6, 7, 8, 9, 10, 11, 12, 13, 14, 15, 16] 48879 = Ret (wire, s) \<and>
    Deobfuscate zero_source init_algo wire = Ret ([1, 2, 3, 4, 5, 6, 7] @ replicate 9 0, r)"
  using codec_roundtrip_between_processes [of zero_source init_algo init_algo
      "[1, 2, 3, 4, 5, 6, 7, 8, 9, 10, 11, 12, 13, 14, 15, 16]" 48879,
      OF source_lively_zero algo_inv_init algo_inv_init]
  by auto

text \<open>
  \<open>Matches\<close> on a decoded ID answers exactly whether the encoded ID and the candidate
  share their first seven bytes.
\<close>

theorem Matches_decoded:
  assumes "\<And>seed. source_lively (newSource seed)" "algo_inv newSource g"
    and "length cid = 16" "length candidate = 16"
    and "Obfuscate newSource g cid seed = Ret (wire, g1)" "Deobfuscate newSource g wire = Ret (decoded, g2)"
  shows "Matches decoded candidate \<longleftrightarrow> take 7 cid = take 7 candidate"
proof -
  have "decoded = take 7 cid @ replicate 9 0"
    using codec_any [of newSource g cid seed] assms by fastforce
  then show ?thesis using assms(3,4) by (simp add: Matches_iff)
qed

theorem Matches_decoded_witness:
  "\<exists>wire g1 decoded g2. Obfuscate zero_source init_algo (replicate 16 5) 3 = Ret (wire, g1) \<and>
    Deobfuscate zero_source init_algo wire = Ret (decoded, g2) \<and> Matches decoded (replicate 16 5) \<and>
    \<not> Matches decoded (replicate 16 6)"
proof -
  obtain wire g1 where w: "Obfuscate zero_source init_algo (replicate 16 5) 3 = Ret (wire, g1)"
      "\<exists>decoded g2. Deobfuscate zero_source init_algo wire = Ret (decoded, g2)"
    using codec_any [of zero_source init_algo "replicate 16 5" 3, OF algo_inv_init source_lively_zero] algo_inv_init [of zero_source]
    by auto
  then obtain decoded g2 where d: "Deobfuscate zero_source init_algo wire = Ret (decoded, g2)" by blast
  show ?thesis
    using Matches_decoded [of zero_source init_algo "replicate 16 5" "replicate 16 5",
        OF source_lively_zero algo_inv_init _ _ w(1) d]
      Matches_decoded [of zero_source init_algo "replicate 16 5" "replicate 16 6",
        OF source_lively_zero algo_inv_init _ _ w(1) d] w(1) d
    by (intro exI conjI) simp_all
qed

end
