(* ===== verification/Session.thy ===== *)
theory Session
  imports Cid_Codec
begin

text \<open>
  \<open>pkg/magic/session.go\<close>: the cache of known real connection IDs and the server's map
  from client addresses to caches. Both indexes of a cache hold pointers to shared
  \<open>cidEntry\<close> cells, so the model keeps the cells in a store. The abstract cache is the
  list of the IDs in the order they were learned; every operation refines it. What the
  connection relies on is the locale \<open>cid_store\<close>.
\<close>

section \<open>CIDCache\<close>

record cidEntry =
  entry_real :: bytes
  entry_hash :: u64

record CIDCache =
  cells :: "cidEntry list"
  entries :: "bytes \<Rightarrow> nat option"
  prefix56Index :: "u64 \<Rightarrow> nat option"

definition NewCIDCache :: CIDCache where
  "NewCIDCache = \<lparr>cells = [], entries = (\<lambda>_. None), prefix56Index = (\<lambda>_. None)\<rparr>"

definition hashPrefix56 :: "bytes \<Rightarrow> u64" where
  "hashPrefix56 b =
     (if length b < 7 then 0
      else ucast (b ! 0) OR push_bit 8 (ucast (b ! 1)) OR push_bit 16 (ucast (b ! 2)) OR
        push_bit 24 (ucast (b ! 3)) OR push_bit 32 (ucast (b ! 4)) OR
        push_bit 40 (ucast (b ! 5)) OR push_bit 48 (ucast (b ! 6)))"

definition AddReal :: "CIDCache \<Rightarrow> bytes \<Rightarrow> CIDCache" where
  "AddReal c rl =
     (case entries c rl of
        Some e \<Rightarrow> c\<lparr>cells := (cells c)[e := (cells c ! e)\<lparr>entry_real := rl\<rparr>]\<rparr>
      | None \<Rightarrow>
          let h = (if PayloadBytes \<le> length rl then hashPrefix56 (take PayloadBytes rl) else 0);
              e = length (cells c);
              c1 = c\<lparr>cells := cells c @ [\<lparr>entry_real = rl, entry_hash = h\<rparr>],
                     entries := (entries c)(rl \<mapsto> e)\<rparr>
          in if h \<noteq> 0 then c1\<lparr>prefix56Index := (prefix56Index c)(h \<mapsto> e)\<rparr> else c1)"

definition FindByReal :: "CIDCache \<Rightarrow> bytes \<Rightarrow> bytes option" where
  "FindByReal c rl =
     (case entries c rl of Some e \<Rightarrow> Some (entry_real (cells c ! e)) | None \<Rightarrow> None)"

text \<open>\<open>range\<close> visits the keys of a map in an unspecified order, here the argument \<open>order\<close>.\<close>

definition GetReals :: "bytes list \<Rightarrow> CIDCache \<Rightarrow> bytes list" where
  "GetReals order c =
     concat (map (\<lambda>k. case entries c k of Some e \<Rightarrow> [entry_real (cells c ! e)] | None \<Rightarrow> []) order)"

definition FindByDecoded56 :: "CIDCache \<Rightarrow> bytes \<Rightarrow> bytes option" where
  "FindByDecoded56 c decoded =
     (if length decoded < PayloadBytes then None
      else case prefix56Index c (hashPrefix56 (take PayloadBytes decoded)) of
             Some e \<Rightarrow> Some (entry_real (cells c ! e)) | None \<Rightarrow> None)"

section \<open>ServerSessionMap\<close>

type_synonym ServerSessionMap = "string \<Rightarrow> CIDCache option"

definition GetCache :: "ServerSessionMap \<Rightarrow> string \<Rightarrow> CIDCache \<times> ServerSessionMap" where
  "GetCache m addrStr =
     (case m addrStr of
        Some cache \<Rightarrow> (cache, m)
      | None \<Rightarrow> (NewCIDCache, m(addrStr \<mapsto> NewCIDCache)))"

section \<open>The prefix hash is the prefix\<close>

lemma bit_push_byte:
  "bit (push_bit (8 * j) (ucast (w :: byte)) :: u64) n \<longleftrightarrow> n < 64 \<and> n div 8 = j \<and> bit w (n mod 8)"
proof -
  define q r where "q = n div 8" and "r = n mod 8"
  have n: "n = 8 * q + r" and r: "r < 8" by (simp_all add: q_def r_def)
  have "bit w (n - 8 * j) \<Longrightarrow> n - 8 * j < 8" using bit_imp_le_length [of w "n - 8 * j"] by simp
  moreover have "8 * j \<le> n \<Longrightarrow> n - 8 * j < 8 \<Longrightarrow> q = j" using r unfolding n by linarith
  ultimately have "8 * j \<le> n \<and> bit w (n - 8 * j) \<longleftrightarrow> q = j \<and> bit w r"
    using n by auto
  then show ?thesis by (auto simp: bit_push_bit_iff q_def r_def)
qed

definition in_byte :: "nat \<Rightarrow> nat \<Rightarrow> byte \<Rightarrow> bool" where
  "in_byte n j w \<longleftrightarrow> n < 64 \<and> n div 8 = j \<and> bit w (n mod 8)"

lemma bit_push_bytes:
  "bit (ucast (w :: byte) :: u64) n \<longleftrightarrow> in_byte n 0 w"
  "bit (push_bit 8 (ucast w) :: u64) n \<longleftrightarrow> in_byte n 1 w"
  "bit (push_bit 16 (ucast w) :: u64) n \<longleftrightarrow> in_byte n 2 w"
  "bit (push_bit 24 (ucast w) :: u64) n \<longleftrightarrow> in_byte n 3 w"
  "bit (push_bit 32 (ucast w) :: u64) n \<longleftrightarrow> in_byte n 4 w"
  "bit (push_bit 40 (ucast w) :: u64) n \<longleftrightarrow> in_byte n 5 w"
  "bit (push_bit 48 (ucast w) :: u64) n \<longleftrightarrow> in_byte n 6 w"
  using bit_push_byte [of 0 w n] apply (simp add: in_byte_def)
  using bit_push_byte [of 1 w n] apply (simp only: in_byte_def mult_1_right)
  using bit_push_byte [of 2 w n] apply (simp add: in_byte_def)
  using bit_push_byte [of 3 w n] apply (simp add: in_byte_def)
  using bit_push_byte [of 4 w n] apply (simp add: in_byte_def)
  using bit_push_byte [of 5 w n] apply (simp add: in_byte_def)
  using bit_push_byte [of 6 w n] apply (simp add: in_byte_def)
  done

lemma in_byte_less: "in_byte n j w \<Longrightarrow> n < 64"
  by (simp add: in_byte_def)

lemma bit_hashPrefix56:
  assumes "7 \<le> length b"
  shows "bit (hashPrefix56 b) n \<longleftrightarrow> n < 56 \<and> bit_of b n"
proof -
  have h: "hashPrefix56 b = ucast (b ! 0) OR push_bit 8 (ucast (b ! 1)) OR
      push_bit 16 (ucast (b ! 2)) OR push_bit 24 (ucast (b ! 3)) OR push_bit 32 (ucast (b ! 4)) OR
      push_bit 40 (ucast (b ! 5)) OR push_bit 48 (ucast (b ! 6))"
    using assms by (simp add: hashPrefix56_def)
  have "bit (hashPrefix56 b) n \<longleftrightarrow> n < 64 \<and> (\<exists>j \<in> set [0, 1, 2, 3, 4, 5, 6]. in_byte n j (b ! j))"
    unfolding h bit_or_iff bit_push_bytes using in_byte_less by auto
  also have "\<dots> \<longleftrightarrow> n < 64 \<and> n div 8 \<in> set [0, 1, 2, 3, 4, 5, 6] \<and> bit_of b n"
    unfolding in_byte_def bit_of_def by blast
  also have "\<dots> \<longleftrightarrow> n < 56 \<and> bit_of b n"
  proof -
    have "k \<in> set [0, 1, 2, 3, 4, 5, 6] \<longleftrightarrow> k < 7" for k :: nat by auto
    moreover have "n div 8 < 7 \<longleftrightarrow> n < 56" by (simp add: div_less_iff_less_mult)
    ultimately show ?thesis by (simp only:) linarith
  qed
  finally show ?thesis .
qed
section \<open>The abstract cache\<close>

text \<open>
  A cache stands for the list of its real IDs, oldest first. A decoded 56-bit prefix finds
  the newest ID with that prefix; the all-zero prefix is never indexed.
\<close>

definition cids :: "CIDCache \<Rightarrow> bytes list" where
  "cids c = map entry_real (cells c)"

definition spec_add :: "bytes list \<Rightarrow> bytes \<Rightarrow> bytes list" where
  "spec_add rs r = (if r \<in> set rs then rs else rs @ [r])"

definition prefix_match :: "bytes \<Rightarrow> bytes \<Rightarrow> bool" where
  "prefix_match d r \<longleftrightarrow> PayloadBytes \<le> length d \<and> PayloadBytes \<le> length r \<and>
     take PayloadBytes r = take PayloadBytes d \<and> take PayloadBytes r \<noteq> replicate PayloadBytes 0"

definition spec_find56 :: "bytes list \<Rightarrow> bytes \<Rightarrow> bytes option" where
  "spec_find56 rs d = List.find (prefix_match d) (rev rs)"

text \<open>The key under which an ID is indexed.\<close>

definition prefix_key :: "bytes \<Rightarrow> u64" where
  "prefix_key r = (if PayloadBytes \<le> length r then hashPrefix56 (take PayloadBytes r) else 0)"

definition cache_inv :: "CIDCache \<Rightarrow> bool" where
  "cache_inv c \<longleftrightarrow>
     (\<forall>k e. entries c k = Some e \<longleftrightarrow> e < length (cells c) \<and> entry_real (cells c ! e) = k) \<and>
     (\<forall>e < length (cells c). entry_hash (cells c ! e) = prefix_key (entry_real (cells c ! e))) \<and>
     (\<forall>h e. prefix56Index c h = Some e \<longleftrightarrow>
        h \<noteq> 0 \<and> e < length (cells c) \<and> entry_hash (cells c ! e) = h \<and>
        (\<forall>q. e < q \<and> q < length (cells c) \<longrightarrow> entry_hash (cells c ! q) \<noteq> h))"

lemma hashPrefix56_inj:
  assumes "length a = 7" "length b = 7"
  shows "hashPrefix56 a = hashPrefix56 b \<longleftrightarrow> a = b"
proof
  assume "hashPrefix56 a = hashPrefix56 b"
  then have "bit (hashPrefix56 a) k = bit (hashPrefix56 b) k" for k by simp
  then show "a = b"
    using assms by (intro bytes_eqI) (auto simp: bit_hashPrefix56)
qed simp

lemma hashPrefix56_zero: "length a = 7 \<Longrightarrow> hashPrefix56 a = 0 \<longleftrightarrow> a = replicate 7 0"
proof -
  have "hashPrefix56 (replicate 7 0) = 0"
    by (rule bit_word_eqI) (auto simp: bit_hashPrefix56)
  then show "length a = 7 \<Longrightarrow> ?thesis" using hashPrefix56_inj [of a "replicate 7 0"] by simp
qed

lemma prefix_key_match:
  assumes "7 \<le> length d" "h = hashPrefix56 (take 7 d)"
  shows "h \<noteq> 0 \<and> prefix_key r = h \<longleftrightarrow> prefix_match d r"
  using assms hashPrefix56_inj [of "take 7 r" "take 7 d"] hashPrefix56_zero [of "take 7 d"]
  by (auto simp: prefix_key_def prefix_match_def)

lemma find_rev_Some:
  "List.find P (rev xs) = Some x \<longleftrightarrow>
     (\<exists>i < length xs. P (xs ! i) \<and> x = xs ! i \<and> (\<forall>q. i < q \<and> q < length xs \<longrightarrow> \<not> P (xs ! q)))"
proof (induction xs rule: rev_induct)
  case Nil
  then show ?case by simp
next
  case (snoc y xs)
  then show ?case by (auto simp: nth_append less_Suc_eq)
qed

section \<open>The operations refine the abstract cache\<close>

lemma cache_inv_New: "cache_inv NewCIDCache" "cids NewCIDCache = []"
  by (simp_all add: cache_inv_def NewCIDCache_def cids_def)

lemma cache_inv_entries:
  "cache_inv c \<Longrightarrow> entries c k = Some e \<longleftrightarrow> e < length (cells c) \<and> entry_real (cells c ! e) = k"
  by (simp add: cache_inv_def)

lemma cache_inv_index:
  "cache_inv c \<Longrightarrow> prefix56Index c h = Some e \<longleftrightarrow>
     h \<noteq> 0 \<and> e < length (cells c) \<and> prefix_key (entry_real (cells c ! e)) = h \<and>
     (\<forall>q. e < q \<and> q < length (cells c) \<longrightarrow> prefix_key (entry_real (cells c ! q)) \<noteq> h)"
  by (auto simp: cache_inv_def)

lemma entries_None:
  assumes "cache_inv c"
  shows "entries c k = None \<longleftrightarrow> k \<notin> set (cids c)"
proof -
  have "entries c k = None \<longleftrightarrow> (\<forall>e. entries c k \<noteq> Some e)" by (metis not_Some_eq)
  also have "\<dots> \<longleftrightarrow> k \<notin> set (cids c)"
    unfolding cache_inv_entries [OF assms] cids_def by (metis in_set_conv_nth length_map nth_map)
  finally show ?thesis .
qed

lemma cids_distinct: "cache_inv c \<Longrightarrow> distinct (cids c)"
  unfolding cids_def distinct_conv_nth
  by (metis cache_inv_entries length_map nth_map option.inject)

lemma AddReal_known:
  assumes "cache_inv c" "r \<in> set (cids c)"
  shows "AddReal c r = c"
proof -
  obtain e where e: "entries c r = Some e" using assms entries_None by fastforce
  then have "e < length (cells c)" "entry_real (cells c ! e) = r"
    using cache_inv_entries [OF assms(1)] by auto
  then have "(cells c ! e)\<lparr>entry_real := r\<rparr> = cells c ! e" by simp
  then show ?thesis using e by (simp add: AddReal_def)
qed

lemma AddReal_new:
  assumes "entries c r = None"
  shows "AddReal c r = c\<lparr>cells := cells c @ [\<lparr>entry_real = r, entry_hash = prefix_key r\<rparr>],
    entries := (entries c)(r \<mapsto> length (cells c)),
    prefix56Index := (if prefix_key r = 0 then prefix56Index c
      else (prefix56Index c)(prefix_key r \<mapsto> length (cells c)))\<rparr>"
  using assms by (simp add: AddReal_def Let_def prefix_key_def)

lemma AddReal_refines:
  assumes "cache_inv c"
  shows "cids (AddReal c r) = spec_add (cids c) r" "cache_inv (AddReal c r)"
proof -
  show "cids (AddReal c r) = spec_add (cids c) r"
    using assms entries_None [OF assms, of r]
    by (cases "r \<in> set (cids c)") (auto simp: AddReal_known AddReal_new spec_add_def cids_def)
  show "cache_inv (AddReal c r)"
  proof (cases "r \<in> set (cids c)")
    case True
    then show ?thesis using assms by (simp add: AddReal_known)
  next
    case False
    then have none: "entries c r = None" using assms by (simp add: entries_None)
    then have fresh: "entry_real (cells c ! e) \<noteq> r" if "e < length (cells c)" for e
      using that False by (metis cids_def length_map nth_map nth_mem)
    let ?c = "AddReal c r" and ?n = "length (cells c)"
    have cells: "cells ?c = cells c @ [\<lparr>entry_real = r, entry_hash = prefix_key r\<rparr>]"
      by (simp add: AddReal_new [OF none])
    have "entries ?c k = Some e \<longleftrightarrow> e < length (cells ?c) \<and> entry_real (cells ?c ! e) = k" for k e
      using cache_inv_entries [OF assms, of k e] fresh [of e] none unfolding cells
      by (cases "e < ?n"; cases "k = r") (auto simp: AddReal_new [OF none] nth_append)
    moreover have "entry_hash (cells ?c ! e) = prefix_key (entry_real (cells ?c ! e))"
      if "e < length (cells ?c)" for e
      using that assms by (cases "e < ?n") (auto simp: cells nth_append cache_inv_def)
    moreover have "prefix56Index ?c h = Some e \<longleftrightarrow> h \<noteq> 0 \<and> e < length (cells ?c) \<and>
        entry_hash (cells ?c ! e) = h \<and>
        (\<forall>q. e < q \<and> q < length (cells ?c) \<longrightarrow> entry_hash (cells ?c ! q) \<noteq> h)" for h e
    proof -
      have old: "prefix56Index c h = Some e \<longleftrightarrow> h \<noteq> 0 \<and> e < ?n \<and> entry_hash (cells c ! e) = h \<and>
          (\<forall>q. e < q \<and> q < ?n \<longrightarrow> entry_hash (cells c ! q) \<noteq> h)"
        using assms unfolding cache_inv_def by blast
      show ?thesis
      proof (cases "h \<noteq> 0 \<and> h = prefix_key r")
        case True
        then have "h = prefix_key r" "prefix_key r \<noteq> 0" by auto
        then have i: "prefix56Index ?c h = Some ?n" by (simp add: AddReal_new [OF none])
        have hn: "entry_hash (cells ?c ! ?n) = h" "length (cells ?c) = Suc ?n"
          using True by (simp_all add: cells)
        show ?thesis
          unfolding i hn(2) using True hn(1) by (auto simp: less_Suc_eq)
      next
        case False
        then have eq: "prefix56Index ?c h = prefix56Index c h" by (auto simp: AddReal_new [OF none])
        show ?thesis
        proof (cases "h = 0")
          case True
          then show ?thesis using old unfolding eq by simp
        next
          case nz: False
          then have "prefix_key r \<noteq> h" using False by simp
          then show ?thesis unfolding eq old cells by (auto simp: nth_append less_Suc_eq)
        qed
      qed
    qed
    ultimately show ?thesis unfolding cache_inv_def by blast
  qed
qed

lemma FindByReal_refines:
  assumes "cache_inv c"
  shows "FindByReal c r = (if r \<in> set (cids c) then Some r else None)"
proof (cases "entries c r")
  case None
  then show ?thesis using entries_None [OF assms, of r] by (simp add: FindByReal_def)
next
  case (Some e)
  then have "r \<in> set (cids c)" using entries_None [OF assms, of r] by auto
  then show ?thesis using Some cache_inv_entries [OF assms, of r e] by (simp add: FindByReal_def)
qed

lemma GetReals_refines:
  assumes "cache_inv c" "set order = dom (entries c)" "distinct order"
  shows "mset (GetReals order c) = mset (cids c)"
proof -
  have some: "\<exists>e. entries c k = Some e \<and> entry_real (cells c ! e) = k" if "k \<in> set order" for k
    using that assms(2) cache_inv_entries [OF assms(1)] by auto
  have "GetReals order c = concat (map (\<lambda>k. [k]) order)"
    unfolding GetReals_def by (rule arg_cong [where f = concat], rule map_cong)
      (use some in \<open>fastforce+\<close>)
  also have "\<dots> = order" by (induction order) auto
  finally have g: "GetReals order c = order" .
  have "set order = set (cids c)"
    by (simp add: assms(2) dom_def entries_None [OF assms(1)])
  then show ?thesis
    unfolding g using assms(3) cids_distinct [OF assms(1)] by (simp add: set_eq_iff_mset_eq_distinct)
qed

lemma FindByDecoded56_refines:
  assumes "cache_inv c"
  shows "FindByDecoded56 c d = spec_find56 (cids c) d"
proof (cases "length d < 7")
  case True
  then have "List.find (prefix_match d) xs = None" for xs
    by (auto simp: find_None_iff prefix_match_def)
  then show ?thesis using True by (simp add: FindByDecoded56_def spec_find56_def)
next
  case False
  let ?h = "hashPrefix56 (take 7 d)"
  have m: "prefix_match d r \<longleftrightarrow> ?h \<noteq> 0 \<and> prefix_key r = ?h" for r
    using prefix_key_match [of d ?h r] False by simp
  have idx: "prefix56Index c ?h = Some e \<longleftrightarrow> e < length (cids c) \<and> prefix_match d (cids c ! e) \<and>
      (\<forall>q. e < q \<and> q < length (cids c) \<longrightarrow> \<not> prefix_match d (cids c ! q))" for e
    by (auto simp: cache_inv_index [OF assms] m cids_def)
  show ?thesis
  proof (cases "prefix56Index c ?h")
    case None
    then have "\<not> (e < length (cids c) \<and> prefix_match d (cids c ! e) \<and>
        (\<forall>q. e < q \<and> q < length (cids c) \<longrightarrow> \<not> prefix_match d (cids c ! q)))" for e
      using idx [of e] by simp
    then have "List.find (prefix_match d) (rev (cids c)) \<noteq> Some x" for x
      unfolding find_rev_Some by blast
    then have "List.find (prefix_match d) (rev (cids c)) = None" by (metis not_Some_eq)
    then show ?thesis using None False by (simp add: FindByDecoded56_def spec_find56_def)
  next
    case (Some e)
    then have e: "e < length (cids c)" using idx by auto
    have "List.find (prefix_match d) (rev (cids c)) = Some (cids c ! e)"
      using Some idx unfolding find_rev_Some by auto
    then show ?thesis
      using Some False e by (simp add: FindByDecoded56_def spec_find56_def cids_def)
  qed
qed

section \<open>What a connection relies on\<close>

locale cid_store =
  fixes new :: 'c
    and add :: "'c \<Rightarrow> bytes \<Rightarrow> 'c"
    and find_real :: "'c \<Rightarrow> bytes \<Rightarrow> bytes option"
    and find56 :: "'c \<Rightarrow> bytes \<Rightarrow> bytes option"
    and invar :: "'c \<Rightarrow> bool"
    and reals :: "'c \<Rightarrow> bytes list"
  assumes invar_new: "invar new" and reals_new: "reals new = []"
    and invar_add: "invar c \<Longrightarrow> invar (add c r)"
    and reals_add: "invar c \<Longrightarrow> reals (add c r) = spec_add (reals c) r"
    and find_real_eq: "invar c \<Longrightarrow> find_real c r = (if r \<in> set (reals c) then Some r else None)"
    and find56_eq: "invar c \<Longrightarrow> find56 c d = spec_find56 (reals c) d"
begin

lemma add_all:
  "invar c \<Longrightarrow> invar (foldl add c rs) \<and> reals (foldl add c rs) = foldl spec_add (reals c) rs"
  by (induction rs arbitrary: c) (auto simp: invar_add reals_add)

lemma find_real_add: "invar c \<Longrightarrow> find_real (add c r) r = Some r"
  by (simp add: find_real_eq invar_add reals_add spec_add_def)

lemma find_real_mono: "invar c \<Longrightarrow> find_real c r = Some s \<Longrightarrow> find_real (add c q) r = Some s"
  by (auto simp: find_real_eq invar_add reals_add spec_add_def split: if_splits)

lemma find56_sound:
  assumes "invar c" "find56 c d = Some r"
  shows "r \<in> set (reals c)" "prefix_match d r"
  using assms by (auto simp: find56_eq spec_find56_def find_rev_Some)

lemma find56_unique:
  assumes "invar c" "r \<in> set (reals c)" "prefix_match d r"
    "\<And>q. q \<in> set (reals c) \<Longrightarrow> prefix_match d q \<Longrightarrow> q = r"
  shows "find56 c d = Some r"
proof (cases "find56 c d")
  case None
  then have "\<not> prefix_match d r"
    using assms(1,2) by (auto simp: find56_eq spec_find56_def find_None_iff)
  then show ?thesis using assms(3) by simp
next
  case (Some q)
  then show ?thesis using find56_sound [OF assms(1) Some] assms(4) by simp
qed

lemma find56_newest:
  assumes "invar c" "r \<notin> set (reals c)" "prefix_match d r"
  shows "find56 (add c r) d = Some r"
  using assms by (simp add: find56_eq invar_add reals_add spec_add_def spec_find56_def)

lemma find56_other:
  assumes "invar c" "\<not> prefix_match d r"
  shows "find56 (add c r) d = find56 c d"
  using assms by (simp add: find56_eq invar_add reals_add spec_add_def spec_find56_def)

lemma find56_zero:
  assumes "invar c" "take PayloadBytes d = replicate PayloadBytes 0"
  shows "find56 c d = None"
  using assms by (auto simp: find56_eq spec_find56_def find_None_iff prefix_match_def)

end

interpretation cache: cid_store NewCIDCache AddReal FindByReal FindByDecoded56 cache_inv cids
  by unfold_locales
    (auto simp: cache_inv_New AddReal_refines FindByReal_refines FindByDecoded56_refines)

section \<open>The server's sessions\<close>

definition sessions_inv :: "ServerSessionMap \<Rightarrow> bool" where
  "sessions_inv m \<longleftrightarrow> (\<forall>a c. m a = Some c \<longrightarrow> cache_inv c)"

lemma GetCache_ok:
  assumes "sessions_inv m" "GetCache m a = (c, m')"
  shows "cache_inv c" "m' a = Some c" "sessions_inv m'" "\<And>b. b \<noteq> a \<Longrightarrow> m' b = m b"
  using assms by (auto simp: GetCache_def sessions_inv_def cache_inv_New split: option.splits if_splits)

lemma GetCache_cases:
  assumes "GetCache m a = (c, m')"
  shows "m' a = Some c" "m a = None \<Longrightarrow> c = NewCIDCache" "m a \<noteq> None \<Longrightarrow> m a = Some c \<and> m' = m"
  using assms by (auto simp: GetCache_def split: option.splits)

text \<open>
  The code hands out a pointer to the cache in the map. In the model the reader stores the
  cache it has updated under the address it asked for; no two addresses share a cache.
\<close>

lemma GetCache_stored: "GetCache (m(a \<mapsto> d)) a = (d, m(a \<mapsto> d))"
  by (simp add: GetCache_def)

lemma GetCache_other:
  assumes "GetCache m a = (c, m')" "b \<noteq> a"
  shows "fst (GetCache (m'(a \<mapsto> d)) b) = fst (GetCache m b)"
  using assms by (auto simp: GetCache_def split: option.splits)

section \<open>Properties\<close>

text \<open>
  C12. Step by step the hash maps implement a list of distinct IDs: \<open>AddReal\<close> appends an
  unknown one, \<open>FindByReal\<close> is membership, \<open>FindByDecoded56\<close> is the most recently learned
  ID with the prefix, and the invariant of the two indexes is kept.
\<close>

theorem CIDCache_refines_list:
  assumes "cache_inv c"
  shows "cids (AddReal c r) = spec_add (cids c) r \<and> cache_inv (AddReal c r) \<and> distinct (cids c) \<and>
    FindByReal c r = (if r \<in> set (cids c) then Some r else None) \<and>
    FindByDecoded56 c d = spec_find56 (cids c) d"
  using AddReal_refines [OF assms] FindByReal_refines [OF assms] FindByDecoded56_refines [OF assms]
    cids_distinct [OF assms] by simp

theorem CIDCache_refines_list_witness:
  "FindByReal NewCIDCache [1, 2] = None \<and> cids (AddReal NewCIDCache [1, 2]) = [[1, 2]]"
  using CIDCache_refines_list [OF cache_inv_New(1), of "[1, 2]"] by (simp add: cache_inv_New spec_add_def)

lemma foldl_spec_add: "distinct rs \<Longrightarrow> distinct (foldl spec_add rs qs) \<and> set (foldl spec_add rs qs) = set rs \<union> set qs"
  by (induction qs arbitrary: rs) (auto simp: spec_add_def)

text \<open>
  C28. \<open>GetReals\<close> returns every ID ever added, once, in the order in which the map is visited.
\<close>

theorem GetReals_complete:
  assumes "set order = set added" "distinct order"
  shows "mset (GetReals order (foldl AddReal NewCIDCache added)) = mset_set (set added)"
proof -
  let ?c = "foldl AddReal NewCIDCache added"
  have c: "cache_inv ?c" "cids ?c = foldl spec_add [] added"
    using cache.add_all [OF cache_inv_New(1), of added] by (simp_all add: cache_inv_New)
  have s: "distinct (cids ?c)" "set (cids ?c) = set added" using foldl_spec_add [of "[]" added] c(2) by auto
  have "set order = dom (entries ?c)"
    using s(2) assms(1) by (simp add: dom_def entries_None [OF c(1)])
  then have "mset (GetReals order ?c) = mset (cids ?c)" using GetReals_refines c(1) assms(2) by blast
  then show ?thesis using s mset_set_set by metis
qed

theorem GetReals_complete_witness:
  "mset (GetReals [[2], [1]] (foldl AddReal NewCIDCache [[1], [2], [1]])) = {#[1], [2]#}"
  using GetReals_complete [of "[[2], [1]]" "[[1], [2], [1]]"] by (simp add: add_mset_commute insert_commute)

text \<open>
  C23. An ID whose first seven bytes are zero is never found by its prefix, not even right
  after it was added: the index uses the value zero for "no prefix".
\<close>

theorem zero_prefix_never_found:
  assumes "cache_inv c" "length r = 16" "take 7 r = replicate 7 0"
  shows "FindByDecoded56 (AddReal c r) (take 7 r @ replicate 9 0) = None \<and>
    FindByReal (AddReal c r) r = Some r"
  using cache.find56_zero [of "AddReal c r"] AddReal_refines(2) [OF assms(1)] cache.find_real_add assms
  by auto

theorem zero_prefix_never_found_witness:
  "FindByDecoded56 (AddReal NewCIDCache (replicate 7 0 @ replicate 9 5)) (replicate 7 0 @ replicate 9 0) = None"
  using zero_prefix_never_found [OF cache_inv_New(1), of "replicate 7 0 @ replicate 9 5"] by simp

text \<open>
  C27. The server keeps one cache per source address: the first request of an address makes an
  empty cache and stores it, every later one finds the stored cache and changes nothing.
  What a reader learns (it updates the cache under its address) is found by the next
  request of this address and by no other.
\<close>

theorem GetCache_isolated:
  assumes "sessions_inv m" "GetCache m a = (c, m')"
  shows "cache_inv c \<and> sessions_inv m' \<and> m' = m(a \<mapsto> c) \<and>
    (m a = None \<longrightarrow> c = NewCIDCache) \<and> (m a \<noteq> None \<longrightarrow> m a = Some c \<and> m' = m) \<and>
    (\<forall>d. GetCache (m'(a \<mapsto> d)) a = (d, m'(a \<mapsto> d)) \<and>
      (\<forall>b. b \<noteq> a \<longrightarrow> fst (GetCache (m'(a \<mapsto> d)) b) = fst (GetCache m b)))"
  using GetCache_ok [OF assms] GetCache_cases [OF assms(2)] GetCache_stored GetCache_other [OF assms(2)]
  by (intro conjI allI impI) (auto simp: fun_eq_iff)

theorem GetCache_isolated_witness:
  "\<exists>c m. GetCache (\<lambda>_. None) ''10.0.0.1:99'' = (c, m) \<and> m ''10.0.0.1:99'' = Some NewCIDCache \<and> m ''10.0.0.2:99'' = None \<and>
    fst (GetCache (m(''10.0.0.1:99'' \<mapsto> AddReal c [1])) ''10.0.0.1:99'') = AddReal c [1]"
proof -
  obtain c m where g: "GetCache (\<lambda>_. None) ''10.0.0.1:99'' = (c, m)"
    by (cases "GetCache (\<lambda>_. None) ''10.0.0.1:99''")
  have "sessions_inv (\<lambda>_. None)" by (simp add: sessions_inv_def)
  from GetCache_isolated [OF this g] show ?thesis using g by auto
qed

end
