(* ===== verification/Conn.thy ===== *)
theory Conn
  imports Session
begin

unbundle bit_operations_syntax

text \<open>
  The data path of \<open>pkg/magic/conn.go\<close>: \<open>packetPump\<close>'s enqueueing, \<open>ReadFrom\<close> with the
  restoration of connection IDs, \<open>WriteTo\<close> with their obfuscation, and \<open>clientWrite\<close> with
  its double send. The operating system's answers (clock readings, results of socket
  writes, the choice of a \<open>select\<close>) are arguments.
\<close>

section \<open>State\<close>

type_synonym error = string
type_synonym sock = nat

record packet =
  pkt_data :: bytes
  pkt_addr :: "udp_addr option"
  pkt_err :: "error option"

record MagicConn =
  isServer :: bool
  latency :: duration
  currentConn :: "sock option"
  nextConn :: "sock option"
  localConn :: "sock option"
  recvQueue :: "packet list"
  ctxDone :: bool
  clientCache :: CIDCache
  txCounts :: "bytes \<Rightarrow> int option"
  obfRNG :: go_rand

text \<open>The package variables of one process: the codec tables and \<open>GlobalServerSessions\<close>.\<close>

record process =
  pr_algo :: algo_state
  pr_sessions :: ServerSessionMap

definition init_process :: process where
  "init_process = \<lparr>pr_algo = init_algo, pr_sessions = (\<lambda>_. None)\<rparr>"

definition fakeAddr :: udp_addr where
  "fakeAddr = UDPAddr
     (case parse_ipv4 (split_on (CHR ''.'') (FakeAddrIP default_config)) of Some ip \<Rightarrow> ip | None \<Rightarrow> [])
     (FakeAddrPort default_config)"

definition addr_string :: "udp_addr option \<Rightarrow> string" where
  "addr_string a = (case a of Some u \<Rightarrow> udp_string u | None \<Rightarrow> ''<nil>'')"

text \<open>\<open>NewClientConn\<close>, once the local socket is bound; \<open>seed\<close> is the clock reading of \<open>NewCIDSeedRNG\<close>.\<close>

definition NewCIDSeedRNG :: "(u64 \<Rightarrow> nat \<Rightarrow> u64) \<Rightarrow> gotime \<Rightarrow> go_rand" where
  "NewCIDSeedRNG newSource now =
     rand_New (newSource (u64_of_i64 (UnixNano now) XOR sharedSecretHash))"

definition NewClientConn ::
  "(u64 \<Rightarrow> nat \<Rightarrow> u64) \<Rightarrow> gotime \<Rightarrow> duration \<Rightarrow> error + sock \<Rightarrow> error + MagicConn" where
  "NewClientConn newSource now lat listen =
     (case listen of
        Inl err \<Rightarrow> Inl err
      | Inr l \<Rightarrow> Inr \<lparr>isServer = False, latency = lat, currentConn = None, nextConn = None,
          localConn = Some l, recvQueue = [], ctxDone = False, clientCache = NewCIDCache,
          txCounts = (\<lambda>_. None), obfRNG = NewCIDSeedRNG newSource now\<rparr>)"

section \<open>packetPump\<close>

text \<open>
  One round of the pump. A read yields bytes and their source, or an error; the \<open>select\<close> of
  the source prefers nothing, so when the context is done the enqueueing and the return are
  both possible and \<open>prefer_done\<close> chooses. The result says whether the pump goes on.
\<close>

definition queue_capacity :: nat where "queue_capacity = 2048"

definition string_contains :: "string \<Rightarrow> string \<Rightarrow> bool" where
  "string_contains s sub \<longleftrightarrow> (\<exists>k \<in> {0..length s}. take (length sub) (drop k s) = sub)"

datatype read_event = ReadOk bytes "udp_addr option" | ReadErr error

text \<open>The blocking send of an error waits while the queue is full and the context lives.\<close>

fun pump_step :: "MagicConn \<Rightarrow> bool \<Rightarrow> read_event \<Rightarrow> (MagicConn \<times> bool) go" where
  "pump_step c prefer_done (ReadErr e) =
     (if string_contains e ''closed'' then Ret (c, False)
      else if ctxDone c \<and> (prefer_done \<or> queue_capacity \<le> length (recvQueue c)) then Ret (c, False)
      else if length (recvQueue c) < queue_capacity
      then Ret (c\<lparr>recvQueue := recvQueue c @ [\<lparr>pkt_data = [], pkt_addr = None, pkt_err = Some e\<rparr>]\<rparr>, False)
      else Hang)"
| "pump_step c prefer_done (ReadOk data a) =
     (if ctxDone c \<and> (prefer_done \<or> queue_capacity \<le> length (recvQueue c)) then Ret (c, False)
      else if length (recvQueue c) < queue_capacity
      then Ret (c\<lparr>recvQueue := recvQueue c @ [\<lparr>pkt_data = data, pkt_addr = a, pkt_err = None\<rparr>]\<rparr>, True)
      else Ret (c, True))"

section \<open>ReadFrom\<close>

record read_result =
  rd_n :: nat
  rd_addr :: "udp_addr option"
  rd_err :: "error option"
  rd_buf :: bytes

definition read_ok :: "bytes \<Rightarrow> bytes \<Rightarrow> udp_addr option \<Rightarrow> read_result" where
  "read_ok p data a = \<lparr>rd_n = copy_count p data, rd_addr = a, rd_err = None, rd_buf = go_copy p data\<rparr>"

definition read_fail :: "bytes \<Rightarrow> error \<Rightarrow> read_result" where
  "read_fail p e = \<lparr>rd_n = 0, rd_addr = None, rd_err = Some e, rd_buf = p\<rparr>"

text \<open>
  The three ways to the real ID: a plain match, a match of the decoded prefix, a new ID.
  The result is the ID to write back, if any, the cache and the codec state. A pooled
  buffer is overwritten whole before it is decoded, so fresh zeros stand for it.
\<close>

definition lookup_cid ::
  "(u64 \<Rightarrow> nat \<Rightarrow> u64) \<Rightarrow> algo_state \<Rightarrow> CIDCache \<Rightarrow> bytes \<Rightarrow> (bytes option \<times> CIDCache \<times> algo_state) go" where
  "lookup_cid newSource g cache wireCID =
     (case FindByReal cache wireCID of
        Some _ \<Rightarrow> Ret (None, cache, g)
      | None \<Rightarrow>
          go_bind (Deobfuscate newSource g (go_copy (replicate FixedCIDLen 0) wireCID)) (\<lambda>(decoded, g').
            case FindByDecoded56 cache decoded of
              Some rl \<Rightarrow> Ret (Some rl, cache, g')
            | None \<Rightarrow> Ret (None, AddReal cache wireCID, g')))"

text \<open>\<open>n = copy(p, data)\<close>, then \<open>copy(p[cidOffset:], real)\<close> when there is an ID to write back.\<close>

definition fill_buffer :: "bytes \<Rightarrow> bytes \<Rightarrow> udp_addr option \<Rightarrow> bytes option \<Rightarrow> read_result go" where
  "fill_buffer p data a found =
     (case found of
        None \<Rightarrow> Ret (read_ok p data a)
      | Some rl \<Rightarrow>
          let p1 = go_copy p data
          in if length p1 < 1 then Panic SliceBounds
             else Ret ((read_ok p data a)\<lparr>rd_buf := take 1 p1 @ go_copy (drop 1 p1) rl\<rparr>))"

definition read_packet ::
  "(u64 \<Rightarrow> nat \<Rightarrow> u64) \<Rightarrow> bytes \<Rightarrow> bytes \<Rightarrow> udp_addr option \<Rightarrow> MagicConn \<Rightarrow> process \<Rightarrow>
     (read_result \<times> MagicConn \<times> process) go" where
  "read_packet newSource p data src c ps =
     (let a = (if isServer c then src else Some fakeAddr)
      in if 0 < length data \<and> 0 < data ! 0 AND 0x80 then Ret (read_ok p data a, c, ps)
      else if length data < 1 + FixedCIDLen then Ret (read_ok p data a, c, ps)
      else
        let wireCID = take FixedCIDLen (drop 1 data)
        in if isServer c then
             (case a of
                None \<Rightarrow> Ret (read_fail p ''nil source address'', c, ps)
              | Some u \<Rightarrow>
                  let (cache, m) = GetCache (pr_sessions ps) (udp_string u)
                  in go_bind (lookup_cid newSource (pr_algo ps) cache wireCID) (\<lambda>(found, cache', g).
                       go_bind (fill_buffer p data a found) (\<lambda>r.
                         Ret (r, c, ps\<lparr>pr_algo := g, pr_sessions := m(udp_string u \<mapsto> cache')\<rparr>))))
           else
             go_bind (lookup_cid newSource (pr_algo ps) (clientCache c) wireCID) (\<lambda>(found, cache', g).
               go_bind (fill_buffer p data a found) (\<lambda>r.
                 Ret (r, c\<lparr>clientCache := cache'\<rparr>, ps\<lparr>pr_algo := g\<rparr>))))"

datatype select_choice = TakePacket | TakeDone

definition ReadFrom ::
  "(u64 \<Rightarrow> nat \<Rightarrow> u64) \<Rightarrow> select_choice \<Rightarrow> bytes \<Rightarrow> MagicConn \<Rightarrow> process \<Rightarrow>
     (read_result \<times> MagicConn \<times> process) go" where
  "ReadFrom newSource choice p c ps =
     (case choice of
        TakeDone \<Rightarrow> if ctxDone c then Ret (read_fail p ''connection closed'', c, ps) else Hang
      | TakePacket \<Rightarrow>
          (case recvQueue c of
             [] \<Rightarrow> Hang
           | pkt # rest \<Rightarrow>
               let c' = c\<lparr>recvQueue := rest\<rparr>
               in (case pkt_err pkt of
                     Some e \<Rightarrow> Ret (read_fail p e, c', ps)
                   | None \<Rightarrow> read_packet newSource p (pkt_data pkt) (pkt_addr pkt) c' ps)))"

section \<open>WriteTo\<close>

type_synonym send = "sock \<times> bytes \<times> udp_addr option"

record write_result =
  wr_n :: nat
  wr_err :: "error option"
  wr_sends :: "send list"

text \<open>\<open>clientWrite\<close>: one send to the slot of the predicted arrival, a second one near its end.\<close>

definition clientWrite ::
  "config \<Rightarrow> (send \<Rightarrow> nat \<times> error option) \<Rightarrow> gotime \<Rightarrow> MagicConn \<Rightarrow> bytes \<Rightarrow> write_result go" where
  "clientWrite cfg sockWrite now c p =
     (let arrival = time_add now (latency c)
      in go_bind (GetAddressByTime cfg arrival) (\<lambda>target1.
        case localConn c of
          None \<Rightarrow> Panic (Explicit ''nil pointer dereference'')
        | Some l \<Rightarrow>
            let (n, err) = sockWrite (l, p, target1)
            in if err \<noteq> None then Ret \<lparr>wr_n = n, wr_err = err, wr_sends = [(l, p, target1)]\<rparr>
            else go_bind (go_mod (UnixMilli arrival) (Milliseconds (SlotDuration cfg))) (\<lambda>ms.
              if wrap64 (Milliseconds (SlotDuration cfg) - ms) < ClientDoubleSendEdgeThresholdMs cfg
              then go_bind (GetAddressByTime cfg (time_add arrival (SlotDuration cfg))) (\<lambda>target2.
                Ret \<lparr>wr_n = n, wr_err = None,
                  wr_sends = (if addr_string target2 \<noteq> addr_string target1
                    then [(l, p, target1), (l, p, target2)] else [(l, p, target1)])\<rparr>)
              else Ret \<lparr>wr_n = n, wr_err = None, wr_sends = [(l, p, target1)]\<rparr>)))"

text \<open>
  The first half of \<open>WriteTo\<close>: count the packet under its connection ID and, from the
  eleventh on, encode the ID in place. The result is the buffer as it goes on the wire.
\<close>

definition encode_packet ::
  "(u64 \<Rightarrow> nat \<Rightarrow> u64) \<Rightarrow> config \<Rightarrow> bytes \<Rightarrow> MagicConn \<Rightarrow> process \<Rightarrow> (bytes \<times> MagicConn \<times> process) go" where
  "encode_packet newSource cfg p c ps =
     (if 0 < length p \<and> p ! 0 AND 0x80 = 0 \<and> 1 + FixedCIDLen \<le> length p
      then
        let cidKey = take FixedCIDLen (drop 1 p);
            val = txCounts c cidKey;
            count = wrap64 ((case val of Some v \<Rightarrow> v | None \<Rightarrow> 0) + 1);
            c1 = c\<lparr>txCounts := (txCounts c)(cidKey \<mapsto> count)\<rparr>
        in if CIDObfuscationEnabled cfg \<and> 10 < count
           then
             let (r, rng) = Rand_Uint32 (obfRNG c1)
             in go_bind (Obfuscate newSource (pr_algo ps) cidKey (ucast r)) (\<lambda>(cid, g).
                  Ret (take 1 p @ cid @ drop (1 + FixedCIDLen) p,
                       c1\<lparr>obfRNG := rng\<rparr>, ps\<lparr>pr_algo := g\<rparr>))
           else Ret (p, c1, ps)
      else Ret (p, c, ps))"

definition errClosed :: error where "errClosed = ''use of closed network connection''"

definition WriteTo ::
  "(u64 \<Rightarrow> nat \<Rightarrow> u64) \<Rightarrow> config \<Rightarrow> (send \<Rightarrow> nat \<times> error option) \<Rightarrow> gotime \<Rightarrow> bytes \<Rightarrow> udp_addr option \<Rightarrow>
     MagicConn \<Rightarrow> process \<Rightarrow> (write_result \<times> bytes \<times> MagicConn \<times> process) go" where
  "WriteTo newSource cfg sockWrite now p a c ps =
     go_bind (encode_packet newSource cfg p c ps) (\<lambda>(p', c', ps').
       if isServer c' then
         (case currentConn c' of
            None \<Rightarrow> Ret (\<lparr>wr_n = 0, wr_err = Some errClosed, wr_sends = []\<rparr>, p', c', ps')
          | Some l \<Rightarrow>
              let (n, err) = sockWrite (l, p', a)
              in Ret (\<lparr>wr_n = n, wr_err = err, wr_sends = [(l, p', a)]\<rparr>, p', c', ps'))
       else go_bind (clientWrite cfg sockWrite now c' p') (\<lambda>r. Ret (r, p', c', ps')))"

end
