(* ===== verification/Conn_Correct.thy ===== *)
theory Conn_Correct
  imports Conn
begin

unbundle bit_operations_syntax

text \<open>
  Correctness of the data path: encoding touches the connection ID only, the lookup restores
  it through the interface \<open>cid_store\<close>, \<open>ReadFrom\<close> keeps the invariants and always returns,
  a run from sender to receiver delivers what was written, and the client sends to the
  slot of the predicted arrival.
\<close>

section \<open>Packets and their connection IDs\<close>

definition short_packet :: "bytes \<Rightarrow> bool" where
  "short_packet p \<longleftrightarrow> 1 + FixedCIDLen \<le> length p \<and> p ! 0 AND 0x80 = 0"

definition packet_cid :: "bytes \<Rightarrow> bytes" where
  "packet_cid p = take FixedCIDLen (drop 1 p)"

definition with_cid :: "bytes \<Rightarrow> bytes \<Rightarrow> bytes" where
  "with_cid p cid = take 1 p @ cid @ drop (1 + FixedCIDLen) p"

definition delivered :: "read_result \<Rightarrow> bytes" where
  "delivered r = take (rd_n r) (rd_buf r)"

lemma with_cid_props:
  assumes "17 \<le> length p" "length cid = 16"
  shows "length (with_cid p cid) = length p" "packet_cid (with_cid p cid) = cid"
    "take 1 (with_cid p cid) = take 1 p" "drop 17 (with_cid p cid) = drop 17 p"
    "with_cid p cid ! 0 = p ! 0" "with_cid (with_cid p cid) cid' = with_cid p cid'"
proof -
  obtain b q where p: "p = b # q" "16 \<le> length q" using assms(1) by (cases p) auto
  show "length (with_cid p cid) = length p" "packet_cid (with_cid p cid) = cid"
    "take 1 (with_cid p cid) = take 1 p" "drop 17 (with_cid p cid) = drop 17 p"
    "with_cid p cid ! 0 = p ! 0" "with_cid (with_cid p cid) cid' = with_cid p cid'"
    using p assms(2) by (simp_all add: with_cid_def packet_cid_def)
qed

lemma with_own_cid: "with_cid p (packet_cid p) = p"
proof -
  have "take 16 (drop 1 p) @ drop 17 p = drop 1 p"
    using append_take_drop_id [of 16 "drop 1 p"] by simp
  then show ?thesis
    unfolding with_cid_def packet_cid_def using append_take_drop_id [of 1 p] by simp
qed

lemma length_packet_cid: "short_packet p \<Longrightarrow> length (packet_cid p) = 16"
  by (auto simp: short_packet_def packet_cid_def min_def)

lemma short_with_cid: "short_packet p \<Longrightarrow> length cid = 16 \<Longrightarrow> short_packet (with_cid p cid)"
  by (simp add: short_packet_def with_cid_props)

section \<open>Encoding\<close>

definition sent_count :: "MagicConn \<Rightarrow> bytes \<Rightarrow> int" where
  "sent_count c cid = (case txCounts c cid of Some v \<Rightarrow> v | None \<Rightarrow> 0)"

lemma encode_packet_other: "\<not> short_packet p \<Longrightarrow> encode_packet newSource cfg p c ps = Ret (p, c, ps)"
  by (auto simp: encode_packet_def short_packet_def)

lemma encode_packet_plain:
  assumes "short_packet p" "\<not> (CIDObfuscationEnabled cfg \<and> 10 < wrap64 (sent_count c (packet_cid p) + 1))"
  shows "encode_packet newSource cfg p c ps =
    Ret (p, c\<lparr>txCounts := (txCounts c)(packet_cid p \<mapsto> wrap64 (sent_count c (packet_cid p) + 1))\<rparr>, ps)"
  using assms by (auto simp: encode_packet_def short_packet_def packet_cid_def sent_count_def Let_def)

lemma encode_packet_obf:
  assumes "short_packet p" "CIDObfuscationEnabled cfg" "10 < wrap64 (sent_count c (packet_cid p) + 1)"
    and "algo_inv newSource (pr_algo ps)" "\<And>seed. source_lively (newSource seed)"
  shows "\<exists>w rng g. encode_packet newSource cfg p c ps =
      Ret (with_cid p w, c\<lparr>txCounts := (txCounts c)(packet_cid p \<mapsto> wrap64 (sent_count c (packet_cid p) + 1)),
        obfRNG := rng\<rparr>, ps\<lparr>pr_algo := g\<rparr>) \<and>
    length w = 16 \<and> take 2 w = put_be16 (ucast (fst (Rand_Uint32 (obfRNG c)))) \<and> algo_inv newSource g \<and>
    (\<forall>h. algo_inv newSource h \<longrightarrow> (\<exists>h'. algo_inv newSource h' \<and>
      Deobfuscate newSource h w = Ret (take 7 (packet_cid p) @ replicate 9 0, h')))"
proof -
  have nonempty: "p \<noteq> []" using assms(1) by (auto simp: short_packet_def)
  obtain r rng where r: "Rand_Uint32 (obfRNG c) = (r, rng)" by (cases "Rand_Uint32 (obfRNG c)")
  obtain w g where w: "Obfuscate newSource (pr_algo ps) (packet_cid p) (ucast r) = Ret (w, g)"
      "algo_inv newSource g" "length w = 16" "take 2 w = put_be16 (ucast r)"
      "\<forall>h. algo_inv newSource h \<longrightarrow> (\<exists>h'. algo_inv newSource h' \<and>
        Deobfuscate newSource h w = Ret (take 7 (packet_cid p) @ replicate 9 0, h'))"
    using codec_any [OF assms(4,5), of "packet_cid p" "ucast r"] length_packet_cid [OF assms(1)] by auto
  have "encode_packet newSource cfg p c ps =
      Ret (with_cid p w, c\<lparr>txCounts := (txCounts c)(packet_cid p \<mapsto> wrap64 (sent_count c (packet_cid p) + 1)),
        obfRNG := rng\<rparr>, ps\<lparr>pr_algo := g\<rparr>)"
    using assms(1-3) r w(1) nonempty
    by (simp add: encode_packet_def short_packet_def packet_cid_def sent_count_def Let_def with_cid_def)
  then show ?thesis using w r by auto
qed

section \<open>Lookup and restoration\<close>

lemma lookup_known:
  "cache_inv cache \<Longrightarrow> w \<in> set (cids cache) \<Longrightarrow> lookup_cid newSource g cache w = Ret (None, cache, g)"
  by (simp add: lookup_cid_def cache.find_real_eq)

lemma lookup_decoded:
  assumes "cache_inv cache" "w \<notin> set (cids cache)" "length w = 16"
    "Deobfuscate newSource g w = Ret (d, g')"
  shows "lookup_cid newSource g cache w =
    (case FindByDecoded56 cache d of Some r \<Rightarrow> Ret (Some r, cache, g') | None \<Rightarrow> Ret (None, AddReal cache w, g'))"
  using assms by (simp add: lookup_cid_def cache.find_real_eq)

lemma lookup_total:
  assumes "cache_inv cache" "length w = 16" "algo_inv newSource g" "\<And>seed. source_lively (newSource seed)"
  shows "\<exists>found cache' g'. lookup_cid newSource g cache w = Ret (found, cache', g') \<and>
    cache_inv cache' \<and> algo_inv newSource g' \<and>
    set (cids cache) \<subseteq> set (cids cache') \<and> set (cids cache') \<subseteq> insert w (set (cids cache)) \<and>
    (\<forall>r. found = Some r \<longrightarrow> r \<in> set (cids cache))"
proof (cases "w \<in> set (cids cache)")
  case True
  then show ?thesis using assms by (auto simp: lookup_known)
next
  case False
  obtain d g' where d: "Deobfuscate newSource g w = Ret (d, g')" "algo_inv newSource g'"
    using Deobfuscate_total [OF assms(3,4), of w] assms(2) by auto
  show ?thesis
  proof (cases "FindByDecoded56 cache d")
    case None
    then show ?thesis
      using lookup_decoded [OF assms(1) False assms(2) d(1)] assms(1) d(2)
      by (auto simp: cache.invar_add cache.reals_add spec_add_def)
  next
    case (Some r)
    then show ?thesis
      using lookup_decoded [OF assms(1) False assms(2) d(1)] assms(1) d(2)
        cache.find56_sound [OF assms(1) Some]
      by auto
  qed
qed

lemma fill_buffer_none [simp]: "fill_buffer p data a None = Ret (read_ok p data a)"
  by (simp add: fill_buffer_def)

lemma delivered_read_ok: "length data \<le> length p \<Longrightarrow> delivered (read_ok p data a) = data"
  by (simp add: delivered_def read_ok_def go_copy_def copy_count_def)

lemma fill_buffer_some:
  assumes "17 \<le> length data" "length data \<le> length p" "length rl = 16"
  shows "\<exists>r. fill_buffer p data a (Some rl) = Ret r \<and> delivered r = with_cid data rl \<and>
    rd_addr r = a \<and> rd_err r = None"
proof -
  obtain b q where q: "data = b # q" "16 \<le> length q" using assms(1) by (cases data) auto
  have "go_copy (q @ drop (Suc (length q)) p) rl = rl @ drop 16 q @ drop (Suc (length q)) p"
    using q(2) assms(3) by (simp add: go_copy_def)
  moreover have "go_copy p data = b # q @ drop (Suc (length q)) p"
    using assms(2) q(1) by (simp add: go_copy_fits)
  ultimately show ?thesis
    using assms(2,3) q
    by (simp add: fill_buffer_def Let_def delivered_def read_ok_def copy_count_def with_cid_def)
qed

lemma fill_buffer_total:
  assumes "p \<noteq> []"
  shows "\<exists>r. fill_buffer p data a found = Ret r \<and> rd_err r = None \<and> rd_addr r = a \<and>
    length (rd_buf r) = length p \<and> rd_n r \<le> length p"
proof -
  have "0 < length p" using assms by simp
  then show ?thesis
    by (cases found) (simp_all add: fill_buffer_def read_ok_def copy_count_def Let_def Suc_le_eq)
qed

text \<open>
  A wire packet whose connection ID is either the real ID \<open>r\<close> or decodes to the prefix of
  \<open>r\<close>, at a cache that knows \<open>r\<close> and no other ID with its prefix: \<open>r\<close> is restored.
\<close>

lemma restore_cid:
  assumes inv: "cache_inv cache" "algo_inv newSource g"
    and live: "\<And>seed. source_lively (newSource seed)"
    and r: "r \<in> set (cids cache)" "length r = 16" "take 7 r \<noteq> replicate 7 0"
    and uniq: "\<And>q. q \<in> set (cids cache) \<Longrightarrow> take 7 q = take 7 r \<Longrightarrow> q = r"
    and w: "length w = 16" "w = r \<or> (w \<in> set (cids cache) \<longrightarrow> w = r) \<and>
      (\<exists>g'. algo_inv newSource g' \<and> Deobfuscate newSource g w = Ret (take 7 r @ replicate 9 0, g'))"
    and d: "17 \<le> length data" "length data \<le> length p" "packet_cid data = w"
  shows "\<exists>found g' res. lookup_cid newSource g cache w = Ret (found, cache, g') \<and> algo_inv newSource g' \<and>
    fill_buffer p data a found = Ret res \<and> delivered res = with_cid data r \<and> rd_err res = None"
proof (cases "w \<in> set (cids cache)")
  case True
  then have "w = r" using w(2) by blast
  then have "with_cid data r = data" using d(3) with_own_cid by metis
  then show ?thesis
    using True inv d(2) by (auto simp: lookup_known delivered_read_ok) (simp add: read_ok_def)
next
  case False
  then obtain g' where g': "algo_inv newSource g'" "Deobfuscate newSource g w = Ret (take 7 r @ replicate 9 0, g')"
    using w(2) r(1) by blast
  let ?d = "take 7 r @ replicate 9 0 :: bytes"
  have match: "prefix_match ?d q \<longleftrightarrow> 7 \<le> length q \<and> take 7 q = take 7 r" for q
    using r(2,3) by (auto simp: prefix_match_def)
  have "FindByDecoded56 cache ?d = Some r"
    by (rule cache.find56_unique [OF inv(1) r(1)]) (use match r(2) uniq in auto)
  moreover obtain res where "fill_buffer p data a (Some r) = Ret res" "delivered res = with_cid data r"
      "rd_err res = None"
    using fill_buffer_some [OF d(1,2) r(2)] by blast
  ultimately show ?thesis
    using lookup_decoded [OF inv(1) False w(1) g'(2)] g'(1) by auto
qed

section \<open>Invariants of a connection\<close>

definition conn_inv :: "MagicConn \<Rightarrow> bool" where
  "conn_inv c \<longleftrightarrow> cache_inv (clientCache c) \<and> length (recvQueue c) \<le> queue_capacity"

definition process_inv :: "(u64 \<Rightarrow> nat \<Rightarrow> u64) \<Rightarrow> process \<Rightarrow> bool" where
  "process_inv newSource ps \<longleftrightarrow> algo_inv newSource (pr_algo ps) \<and> sessions_inv (pr_sessions ps)"

lemma init_inv: "process_inv newSource init_process"
  by (simp add: process_inv_def init_process_def algo_inv_init sessions_inv_def)

text \<open>The cache that serves packets from \<open>src\<close>, and its update.\<close>

definition receiver_cache :: "MagicConn \<Rightarrow> process \<Rightarrow> udp_addr \<Rightarrow> CIDCache" where
  "receiver_cache c ps src =
     (if isServer c then fst (GetCache (pr_sessions ps) (udp_string src)) else clientCache c)"

lemma receiver_cache_inv:
  "conn_inv c \<Longrightarrow> process_inv newSource ps \<Longrightarrow> cache_inv (receiver_cache c ps src)"
  using GetCache_ok(1) [OF _ prod.collapse [symmetric]]
  by (auto simp: receiver_cache_def conn_inv_def process_inv_def)

text \<open>\<open>read_packet\<close> on a packet with a connection ID: one lookup, one buffer, one stored cache.\<close>

lemma read_packet_short:
  assumes "short_packet data" "conn_inv c" "process_inv newSource ps"
    and "lookup_cid newSource (pr_algo ps) (receiver_cache c ps src) (packet_cid data) = Ret (found, cache', g)"
    and "cache_inv cache'" "algo_inv newSource g"
    and "fill_buffer p data (if isServer c then Some src else Some fakeAddr) found = Ret res"
  shows "\<exists>c' ps'. read_packet newSource p data (Some src) c ps = Ret (res, c', ps') \<and>
    conn_inv c' \<and> process_inv newSource ps' \<and> isServer c' = isServer c \<and>
    recvQueue c' = recvQueue c \<and> receiver_cache c' ps' src = cache' \<and>
    (\<forall>b. udp_string b \<noteq> udp_string src \<longrightarrow> pr_sessions ps' (udp_string b) = pr_sessions ps (udp_string b))"
proof -
  have short: "\<not> 0 < data ! 0 AND 0x80" "\<not> length data < 1 + FixedCIDLen"
    using assms(1) by (auto simp: short_packet_def)
  obtain cache m where gc: "GetCache (pr_sessions ps) (udp_string src) = (cache, m)"
    by (cases "GetCache (pr_sessions ps) (udp_string src)")
  note ok = GetCache_ok [OF _ gc]
  show ?thesis
  proof (cases "isServer c")
    case True
    have "read_packet newSource p data (Some src) c ps =
        Ret (res, c, ps\<lparr>pr_algo := g, pr_sessions := m(udp_string src \<mapsto> cache')\<rparr>)"
      using assms(4,7) short True gc
      by (simp add: read_packet_def Let_def receiver_cache_def packet_cid_def)
    then show ?thesis
      using True assms(2,3,5,6) ok
      by (auto simp: process_inv_def sessions_inv_def receiver_cache_def GetCache_def)
  next
    case False
    have "read_packet newSource p data (Some src) c ps =
        Ret (res, c\<lparr>clientCache := cache'\<rparr>, ps\<lparr>pr_algo := g\<rparr>)"
      using assms(4,7) short False
      by (simp add: read_packet_def Let_def receiver_cache_def packet_cid_def)
    then show ?thesis
      using False assms(2,3,5,6) by (auto simp: process_inv_def conn_inv_def receiver_cache_def)
  qed
qed

lemma read_packet_total:
  assumes "conn_inv c" "process_inv newSource ps" "\<And>seed. source_lively (newSource seed)" "p \<noteq> []"
  shows "\<exists>res c' ps'. read_packet newSource p data src c ps = Ret (res, c', ps') \<and>
    conn_inv c' \<and> process_inv newSource ps' \<and> recvQueue c' = recvQueue c \<and>
    length (rd_buf res) = length p \<and> rd_n res \<le> length p"
proof (cases "short_packet data")
  case False
  then have "read_packet newSource p data src c ps =
      Ret (read_ok p data (if isServer c then src else Some fakeAddr), c, ps)"
    by (auto simp: read_packet_def short_packet_def word_gt_0)
  then show ?thesis using assms(1,2) by (simp add: read_ok_def copy_count_def)
next
  case True
  show ?thesis
  proof (cases "isServer c \<and> src = None")
    case True
    then have "read_packet newSource p data src c ps = Ret (read_fail p ''nil source address'', c, ps)"
      using \<open>short_packet data\<close> by (auto simp: read_packet_def short_packet_def)
    then show ?thesis using assms(1,2) by (simp add: read_fail_def)
  next
    case False
    obtain u where u: "read_packet newSource p data src c ps = read_packet newSource p data (Some u) c ps"
      using False by (cases src) (auto simp: read_packet_def)
    have inv: "cache_inv (receiver_cache c ps u)" "algo_inv newSource (pr_algo ps)"
      using assms(1,2) by (auto intro: receiver_cache_inv simp: process_inv_def)
    obtain found cache' g where l: "lookup_cid newSource (pr_algo ps) (receiver_cache c ps u) (packet_cid data)
        = Ret (found, cache', g)" "cache_inv cache'" "algo_inv newSource g"
      using lookup_total [OF inv(1) length_packet_cid [OF \<open>short_packet data\<close>] inv(2) assms(3)] by blast
    obtain res where res: "fill_buffer p data (if isServer c then Some u else Some fakeAddr) found = Ret res"
        "length (rd_buf res) = length p" "rd_n res \<le> length p"
      using fill_buffer_total [OF assms(4)] by blast
    show ?thesis
      using read_packet_short [OF \<open>short_packet data\<close> assms(1,2) l res(1)] res(2,3) u by auto
  qed
qed

section \<open>A run between two connections\<close>

text \<open>
  A sender writes packets with \<open>WriteTo\<close>'s encoding; each one reaches the receiver's pump or
  is lost, and the receiver reads it with a buffer of \<open>cap\<close> bytes. The result is what the
  receiver's \<open>ReadFrom\<close> delivers.
\<close>

fun exchange ::
  "(u64 \<Rightarrow> nat \<Rightarrow> u64) \<Rightarrow> config \<Rightarrow> udp_addr \<Rightarrow> nat \<Rightarrow> (bool \<times> bytes) list \<Rightarrow>
     MagicConn \<Rightarrow> process \<Rightarrow> MagicConn \<Rightarrow> process \<Rightarrow> bytes list go" where
  "exchange newSource cfg src cap [] s sp r rp = Ret []"
| "exchange newSource cfg src cap ((arrives, p) # pkts) s sp r rp =
     go_bind (encode_packet newSource cfg p s sp) (\<lambda>(wire, s', sp').
       if arrives then
         go_bind (pump_step r False (ReadOk wire (Some src))) (\<lambda>(r1, _).
           go_bind (ReadFrom newSource TakePacket (replicate cap 0) r1 rp) (\<lambda>(res, r', rp').
             go_bind (exchange newSource cfg src cap pkts s' sp' r' rp') (\<lambda>outs.
               Ret (delivered res # outs))))
       else exchange newSource cfg src cap pkts s' sp' r rp)"

lemma receive_eq:
  assumes "recvQueue r = []"
  shows "go_bind (pump_step r False (ReadOk wire a)) (\<lambda>(r1, _). go_bind (ReadFrom newSource TakePacket p r1 rp) f)
    = go_bind (read_packet newSource p wire a r rp) f"
proof -
  let ?pkt = "\<lparr>pkt_data = wire, pkt_addr = a, pkt_err = None\<rparr>"
  have r: "r\<lparr>recvQueue := []\<rparr> = r" using assms by (cases r) simp
  have "pump_step r False (ReadOk wire a) = Ret (r\<lparr>recvQueue := [?pkt]\<rparr>, True)"
    using assms by (simp add: queue_capacity_def)
  moreover have "ReadFrom newSource TakePacket p (r\<lparr>recvQueue := [?pkt]\<rparr>) rp =
      read_packet newSource p wire a (r\<lparr>recvQueue := []\<rparr>) rp"
    by (simp add: ReadFrom_def)
  ultimately show ?thesis by (simp only: r go_bind.simps prod.case)
qed

text \<open>The IDs the receiver knows for a source; \<open>w\<close> is an encoded form of \<open>cid\<close>.\<close>

definition known_ids :: "MagicConn \<Rightarrow> process \<Rightarrow> udp_addr \<Rightarrow> bytes list" where
  "known_ids r rp src = cids (receiver_cache r rp src)"

definition wire_form :: "(u64 \<Rightarrow> nat \<Rightarrow> u64) \<Rightarrow> bytes \<Rightarrow> bytes \<Rightarrow> bool" where
  "wire_form newSource cid w \<longleftrightarrow>
     (\<exists>g g'. algo_inv newSource g \<and> Deobfuscate newSource g w = Ret (take 7 cid @ replicate 9 0, g'))"

text \<open>
  The codec tells \<open>cid\<close> from the other IDs: none shares its first seven bytes, and none
  happens to be an encoded form of it or it of them.
\<close>

definition separate :: "(u64 \<Rightarrow> nat \<Rightarrow> u64) \<Rightarrow> bytes \<Rightarrow> bytes list \<Rightarrow> bool" where
  "separate newSource cid ids \<longleftrightarrow> (\<forall>q \<in> set ids. q \<noteq> cid \<longrightarrow>
     take 7 q \<noteq> take 7 cid \<and> \<not> wire_form newSource cid q \<and> \<not> wire_form newSource q cid)"

lemma separate_Nil [simp]: "separate newSource cid []"
  by (simp add: separate_def)

lemma separate_add [simp]: "separate newSource cid (spec_add ids cid) \<longleftrightarrow> separate newSource cid ids"
  by (auto simp: separate_def spec_add_def)

lemma wire_formI:
  "algo_inv newSource g \<Longrightarrow> Deobfuscate newSource g w = Ret (take 7 cid @ replicate 9 0, g') \<Longrightarrow> wire_form newSource cid w"
  by (auto simp: wire_form_def)

lemma receive_learned:
  assumes inv: "conn_inv r" "process_inv newSource rp" and live: "\<And>seed. source_lively (newSource seed)"
    and p: "short_packet p" "length p \<le> length buf" "take 7 (packet_cid p) \<noteq> replicate 7 0"
    and l: "packet_cid p \<in> set (known_ids r rp src)" "separate newSource (packet_cid p) (known_ids r rp src)"
    and w: "length w = 16" "w = packet_cid p \<or> (\<exists>g'. algo_inv newSource g' \<and>
      Deobfuscate newSource (pr_algo rp) w = Ret (take 7 (packet_cid p) @ replicate 9 0, g'))"
  shows "\<exists>res r' rp'. read_packet newSource buf (with_cid p w) (Some src) r rp = Ret (res, r', rp') \<and>
    delivered res = p \<and> conn_inv r' \<and> process_inv newSource rp' \<and> recvQueue r' = recvQueue r \<and>
    known_ids r' rp' src = known_ids r rp src"
proof -
  let ?data = "with_cid p w"
  have len: "17 \<le> length p" using p(1) by (simp add: short_packet_def)
  have ci: "cache_inv (receiver_cache r rp src)" "algo_inv newSource (pr_algo rp)"
    using inv by (auto intro: receiver_cache_inv simp: process_inv_def)
  have "w = packet_cid p \<or> (w \<in> set (known_ids r rp src) \<longrightarrow> w = packet_cid p) \<and>
      (\<exists>g'. algo_inv newSource g' \<and> Deobfuscate newSource (pr_algo rp) w = Ret (take 7 (packet_cid p) @ replicate 9 0, g'))"
    using w(2) l(2) wire_formI [OF ci(2)] by (auto simp: separate_def)
  moreover have "q = packet_cid p" if "q \<in> set (known_ids r rp src)" "take 7 q = take 7 (packet_cid p)" for q
    using that l(2) by (auto simp: separate_def)
  ultimately obtain found g' res where "lookup_cid newSource (pr_algo rp) (receiver_cache r rp src) w
        = Ret (found, receiver_cache r rp src, g')" "algo_inv newSource g'"
      "fill_buffer buf ?data (if isServer r then Some src else Some fakeAddr) found = Ret res"
      "delivered res = with_cid ?data (packet_cid p)"
    using restore_cid [OF ci live, of "packet_cid p" w ?data buf "if isServer r then Some src else Some fakeAddr"]
      l(1) length_packet_cid [OF p(1)] p(2,3) w(1) len by (auto simp: with_cid_props known_ids_def)
  moreover have "with_cid ?data (packet_cid p) = p"
    using with_cid_props(6) [OF len w(1)] with_own_cid by simp
  ultimately show ?thesis
    using read_packet_short [OF short_with_cid [OF p(1) w(1)] inv _ ci(1)] with_cid_props(2) [OF len w(1)]
    by (force simp: known_ids_def)
qed

text \<open>A plain ID the receiver does not know is taken as it is, and learned.\<close>

lemma receive_first:
  assumes inv: "conn_inv r" "process_inv newSource rp" and live: "\<And>seed. source_lively (newSource seed)"
    and p: "short_packet p" "length p \<le> length buf"
    and u: "packet_cid p \<notin> set (known_ids r rp src)"
      "\<And>q. q \<in> set (known_ids r rp src) \<Longrightarrow> \<not> wire_form newSource q (packet_cid p)"
  shows "\<exists>res r' rp'. read_packet newSource buf p (Some src) r rp = Ret (res, r', rp') \<and>
    delivered res = p \<and> conn_inv r' \<and> process_inv newSource rp' \<and> recvQueue r' = recvQueue r \<and>
    known_ids r' rp' src = known_ids r rp src @ [packet_cid p]"
proof -
  let ?cache = "receiver_cache r rp src" and ?cid = "packet_cid p"
  have ci: "cache_inv ?cache" "algo_inv newSource (pr_algo rp)"
    using inv by (auto intro: receiver_cache_inv simp: process_inv_def)
  obtain pre g' where d: "Deobfuscate newSource (pr_algo rp) ?cid = Ret (pre @ replicate 9 0, g')"
      "algo_inv newSource g'" "length pre = 7"
    using Deobfuscate_any [OF ci(2) live, of ?cid] length_packet_cid [OF p(1)] by auto
  have "FindByDecoded56 ?cache (pre @ replicate 9 0) = None"
  proof (rule ccontr)
    assume "FindByDecoded56 ?cache (pre @ replicate 9 0) \<noteq> None"
    then obtain q where "FindByDecoded56 ?cache (pre @ replicate 9 0) = Some q" by blast
    from cache.find56_sound [OF ci(1) this] have "q \<in> set (known_ids r rp src)" "take 7 q = pre"
      using d(3) by (auto simp: prefix_match_def known_ids_def)
    then show False using u(2) wire_formI [OF ci(2)] d(1) by blast
  qed
  then have l: "lookup_cid newSource (pr_algo rp) ?cache ?cid = Ret (None, AddReal ?cache ?cid, g')"
    using lookup_decoded [OF ci(1) _ length_packet_cid [OF p(1)] d(1)] u(1) by (simp add: known_ids_def)
  have "cids (AddReal ?cache ?cid) = known_ids r rp src @ [?cid]"
    using ci(1) u(1) by (simp add: cache.reals_add spec_add_def known_ids_def)
  moreover obtain r' rp' where "read_packet newSource buf p (Some src) r rp =
      Ret (read_ok buf p (if isServer r then Some src else Some fakeAddr), r', rp')"
    "conn_inv r'" "process_inv newSource rp'" "recvQueue r' = recvQueue r"
    "receiver_cache r' rp' src = AddReal ?cache ?cid"
    using read_packet_short [OF p(1) inv l cache.invar_add [OF ci(1)] d(2) fill_buffer_none] by blast
  ultimately show ?thesis
    using delivered_read_ok [OF p(2)] by (auto simp: known_ids_def)
qed

lemma exchange_restores:
  assumes "process_inv newSource sp" "conn_inv r" "process_inv newSource rp"
    and live: "\<And>seed. source_lively (newSource seed)"
    and "recvQueue r = []" "take 7 cid \<noteq> replicate 7 0"
    and "\<forall>(arrives, p) \<in> set pkts. short_packet p \<and> packet_cid p = cid \<and> length p \<le> cap"
    and "0 \<le> sent_count s cid" "sent_count s cid + int (length pkts) < 2 ^ 62"
    and "separate newSource cid (known_ids r rp src)"
    and "cid \<in> set (known_ids r rp src) \<or> \<not> CIDObfuscationEnabled cfg \<or>
      (\<exists>i < length pkts. fst (pkts ! i) \<and> sent_count s cid + int i < 10)"
  shows "exchange newSource cfg src cap pkts s sp r rp = Ret (map snd (filter fst pkts))"
  using assms(1-3,5-)
proof (induction pkts arbitrary: s sp r rp)
  case Nil
  then show ?case by simp
next
  case (Cons ap pkts)
  obtain arrives p where ap: "ap = (arrives, p)" by (cases ap)
  have p: "short_packet p" "packet_cid p = cid" "length p \<le> cap" using Cons.prems(6) ap by auto
  have rest: "\<forall>(arrives, p) \<in> set pkts. short_packet p \<and> packet_cid p = cid \<and> length p \<le> cap"
    using Cons.prems(6) by simp
  let ?n = "sent_count s cid"
  have wrap: "wrap64 (?n + 1) = ?n + 1" using Cons.prems(7,8) by (simp add: wrap64_small)
  \<comment> \<open>the sender's step\<close>
  obtain w s' sp' where enc: "encode_packet newSource cfg p s sp = Ret (with_cid p w, s', sp')"
      "process_inv newSource sp'" "sent_count s' cid = ?n + 1" "length w = 16"
      "w = cid \<or> CIDObfuscationEnabled cfg \<and> 10 < ?n + 1 \<and> (\<forall>h. algo_inv newSource h \<longrightarrow> (\<exists>h'. algo_inv newSource h' \<and>
        Deobfuscate newSource h w = Ret (take 7 cid @ replicate 9 0, h')))"
  proof (cases "CIDObfuscationEnabled cfg \<and> 10 < ?n + 1")
    case False
    have "encode_packet newSource cfg p s sp = Ret (with_cid p cid, s\<lparr>txCounts := (txCounts s)(cid \<mapsto> ?n + 1)\<rparr>, sp)"
      using encode_packet_plain [OF p(1), of cfg s] False p(2) wrap with_own_cid [of p] by simp
    then show ?thesis
      using that Cons.prems(1) length_packet_cid [OF p(1)] p(2) by (simp add: sent_count_def)
  next
    case True
    have "algo_inv newSource (pr_algo sp)" using Cons.prems(1) by (simp add: process_inv_def)
    then show ?thesis
      using encode_packet_obf [OF p(1) conjunct1 [OF True] _ _ live, where c = s and ps = sp] True p(2) wrap that Cons.prems(1)
      by (fastforce simp: process_inv_def sent_count_def)
  qed
  have IH: "exchange newSource cfg src cap pkts s' sp' r' rp' = Ret (map snd (filter fst pkts))"
    if "conn_inv r'" "process_inv newSource rp'" "recvQueue r' = []"
      "separate newSource cid (known_ids r' rp' src)"
      "cid \<in> set (known_ids r' rp' src) \<or> \<not> CIDObfuscationEnabled cfg \<or>
        (\<exists>i < length pkts. fst (pkts ! i) \<and> ?n + 1 + int i < 10)"
    for r' rp'
    by (rule Cons.IH) (use that enc(2,3) rest Cons.prems in \<open>simp_all add: algebra_simps\<close>)
  show ?case
  proof (cases arrives)
    case False
    have "cid \<in> set (known_ids r rp src) \<or> \<not> CIDObfuscationEnabled cfg \<or>
        (\<exists>i < length pkts. fst (pkts ! i) \<and> ?n + 1 + int i < 10)"
      using Cons.prems(10) False ap by (auto simp: less_Suc_eq_0_disj)
    then show ?thesis using IH [OF Cons.prems(2,3,4,9)] enc(1) False ap by simp
  next
    case True
    obtain res r' rp' where rec: "read_packet newSource (replicate cap 0) (with_cid p w) (Some src) r rp = Ret (res, r', rp')"
      "delivered res = p" "conn_inv r'" "process_inv newSource rp'" "recvQueue r' = recvQueue r" "cid \<in> set (known_ids r' rp' src)" "separate newSource cid (known_ids r' rp' src)"
    proof (cases "cid \<in> set (known_ids r rp src)")
      case True
      have "\<exists>g'. algo_inv newSource g' \<and> Deobfuscate newSource (pr_algo rp) w = Ret (take 7 cid @ replicate 9 0, g')"
        if "w \<noteq> cid" using enc(5) that Cons.prems(3) by (simp add: process_inv_def)
      then have "\<exists>res r' rp'. read_packet newSource (replicate cap 0) (with_cid p w) (Some src) r rp = Ret (res, r', rp') \<and>
          delivered res = p \<and> conn_inv r' \<and> process_inv newSource rp' \<and> recvQueue r' = recvQueue r \<and>
          known_ids r' rp' src = known_ids r rp src"
        by (intro receive_learned Cons.prems live) (use True p enc(4) Cons.prems(5,9) in auto)
      then show ?thesis using that True Cons.prems(9) by auto
    next
      case False
      then have "\<not> CIDObfuscationEnabled cfg \<or> ?n < 10" using Cons.prems(10) by auto
      then have "w = cid" using enc(5) by auto
      then have "with_cid p w = p" using with_own_cid [of p] p(2) by simp
      moreover have "\<not> wire_form newSource q cid" "q \<noteq> cid" if "q \<in> set (known_ids r rp src)" for q
        using that False Cons.prems(9) by (auto simp: separate_def)
      moreover have "separate newSource cid (known_ids r rp src @ [cid])"
        using Cons.prems(9) by (auto simp: separate_def)
      ultimately show ?thesis
        using that receive_first [OF Cons.prems(2,3) live p(1), of "replicate cap 0" src] p False
        by auto
    qed
    have "exchange newSource cfg src cap pkts s' sp' r' rp' = Ret (map snd (filter fst pkts))"
      by (rule IH) (use rec Cons.prems(4) in auto)
    then have "exchange newSource cfg src cap (ap # pkts) s sp r rp = Ret (delivered res # map snd (filter fst pkts))"
      using True
      by (simp only: ap exchange.simps enc(1) rec(1) receive_eq [OF Cons.prems(4)] go_bind.simps
          prod.case if_True)
    then show ?thesis using True ap rec(2) by simp
  qed
qed

text \<open>Packets that are lost while the ID still travels plain leave no trace but the count.\<close>

lemma exchange_lost:
  assumes "\<forall>p \<in> set lost. short_packet p \<and> packet_cid p = cid"
    and "0 \<le> sent_count s cid" "sent_count s cid + int (length lost) \<le> 10"
  shows "\<exists>s'. sent_count s' cid = sent_count s cid + int (length lost) \<and> obfRNG s' = obfRNG s \<and>
    exchange newSource cfg src cap (map (Pair False) lost @ pkts) s sp r rp = exchange newSource cfg src cap pkts s' sp r rp"
  using assms
proof (induction lost arbitrary: s)
  case Nil
  then show ?case by auto
next
  case (Cons p lost)
  let ?n = "sent_count s cid"
  let ?s = "s\<lparr>txCounts := (txCounts s)(cid \<mapsto> ?n + 1)\<rparr>"
  have p: "short_packet p" "packet_cid p = cid" and n: "0 \<le> ?n" "?n + 1 + int (length lost) \<le> 10"
    using Cons.prems by simp_all
  have "wrap64 (?n + 1) = ?n + 1" using n by (simp add: wrap64_small)
  then have enc: "encode_packet newSource cfg p s sp = Ret (p, ?s, sp)"
    using encode_packet_plain [OF p(1), of cfg s newSource sp] p(2) n by simp
  have count: "sent_count ?s cid = ?n + 1" by (simp add: sent_count_def)
  have "\<exists>s'. sent_count s' cid = sent_count ?s cid + int (length lost) \<and> obfRNG s' = obfRNG ?s \<and>
    exchange newSource cfg src cap (map (Pair False) lost @ pkts) ?s sp r rp = exchange newSource cfg src cap pkts s' sp r rp"
    by (rule Cons.IH) (use Cons.prems n count in auto)
  then obtain s' where s': "sent_count s' cid = ?n + 1 + int (length lost)" "obfRNG s' = obfRNG s"
    "exchange newSource cfg src cap (map (Pair False) lost @ pkts) ?s sp r rp = exchange newSource cfg src cap pkts s' sp r rp"
    using count by auto
  then show ?case using enc by (intro exI [of _ s']) simp
qed

text \<open>The first encoded packet at a receiver that does not know its ID.\<close>

lemma exchange_unknown:
  assumes "process_inv newSource sp" "conn_inv r" "process_inv newSource rp"
    and live: "\<And>seed. source_lively (newSource seed)" and "recvQueue r = []"
    and p: "short_packet p" "length p \<le> cap" and on: "CIDObfuscationEnabled cfg" "sent_count s (packet_cid p) = 10"
    and new: "packet_cid p \<notin> set (known_ids r rp src)" "separate newSource (packet_cid p) (known_ids r rp src)"
  shows "\<exists>w. length w = 16 \<and> take 2 w = put_be16 (ucast (fst (Rand_Uint32 (obfRNG s)))) \<and>
    wire_form newSource (packet_cid p) w \<and>
    exchange newSource cfg src cap [(True, p)] s sp r rp = Ret [with_cid p w]"
proof -
  let ?cid = "packet_cid p"
  have inv: "algo_inv newSource (pr_algo sp)" "algo_inv newSource (pr_algo rp)"
    using assms(1,3) by (simp_all add: process_inv_def)
  have "10 < wrap64 (sent_count s ?cid + 1)" using on(2) by (simp add: wrap64_small)
  then obtain w rng g where w: "encode_packet newSource cfg p s sp =
        Ret (with_cid p w, s\<lparr>txCounts := (txCounts s)(?cid \<mapsto> wrap64 (sent_count s ?cid + 1)), obfRNG := rng\<rparr>, sp\<lparr>pr_algo := g\<rparr>)"
      "length w = 16" "take 2 w = put_be16 (ucast (fst (Rand_Uint32 (obfRNG s))))"
      "\<forall>h. algo_inv newSource h \<longrightarrow> (\<exists>h'. algo_inv newSource h' \<and>
        Deobfuscate newSource h w = Ret (take 7 ?cid @ replicate 9 0, h'))"
    using encode_packet_obf [OF p(1) on(1) _ inv(1) live] by blast
  have form: "wire_form newSource ?cid w" using w(4) inv(1) wire_formI by blast
  have only: "\<not> wire_form newSource q w" if "q \<in> set (known_ids r rp src)" for q
  proof -
    have "take 7 q \<noteq> take 7 ?cid" using that new by (auto simp: separate_def)
    then show ?thesis using w(4) by (fastforce simp: wire_form_def)
  qed
  have "17 \<le> length p" using p(1) by (simp add: short_packet_def)
  note props = with_cid_props [OF this w(2)]
  have "w \<notin> set (known_ids r rp src)" using form new by (auto simp: separate_def)
  then obtain res r' rp' where rec:
      "read_packet newSource (replicate cap 0) (with_cid p w) (Some src) r rp = Ret (res, r', rp')" "delivered res = with_cid p w"
    using receive_first [OF assms(2,3) live short_with_cid [OF p(1) w(2)], of "replicate cap 0" src] only p(2) props
    by auto
  then show ?thesis
    using w form by (auto simp: receive_eq [OF assms(5)] simp del: pump_step.simps)
qed

section \<open>An unindexed prefix\<close>

text \<open>
  The all-zero prefix has hash 0 and is never indexed: an encoded packet with such an ID
  is taken for a packet with a new ID.
\<close>

lemma receive_zero_prefix:
  assumes inv: "conn_inv r" "process_inv newSource rp" and live: "\<And>seed. source_lively (newSource seed)"
    and p: "short_packet p" "length p \<le> length buf" "take 7 cid = replicate 7 0"
    and w: "packet_cid p \<notin> set (cids (receiver_cache r rp src))"
      "Deobfuscate newSource (pr_algo rp) (packet_cid p) = Ret (take 7 cid @ replicate 9 0, g')" "algo_inv newSource g'"
  shows "\<exists>res r' rp'. read_packet newSource buf p (Some src) r rp = Ret (res, r', rp') \<and>
    delivered res = p \<and> packet_cid p \<in> set (cids (receiver_cache r' rp' src))"
proof -
  let ?cache = "receiver_cache r rp src"
  have ci: "cache_inv ?cache" using inv by (rule receiver_cache_inv)
  have "FindByDecoded56 ?cache (take 7 cid @ replicate 9 0) = None"
    by (rule cache.find56_zero [OF ci]) (use p(3) in simp)
  then have l: "lookup_cid newSource (pr_algo rp) ?cache (packet_cid p) = Ret (None, AddReal ?cache (packet_cid p), g')"
    using lookup_decoded [OF ci w(1) length_packet_cid [OF p(1)] w(2)] by simp
  have "packet_cid p \<in> set (cids (AddReal ?cache (packet_cid p)))"
    using ci by (simp add: cache.reals_add spec_add_def)
  then show ?thesis
    using read_packet_short [OF p(1) inv l cache.invar_add [OF ci] w(3) fill_buffer_none [of buf p]]
      delivered_read_ok [OF p(2)] by metis
qed

section \<open>ReadFrom and the pump\<close>

lemma pump_step_inv:
  assumes "conn_inv c" "pump_step c prefer e = Ret (c', go_on)"
  shows "conn_inv c'" "isServer c' = isServer c" "clientCache c' = clientCache c"
  using assms by (cases e; auto simp: conn_inv_def split: if_splits)+

lemma ReadFrom_total:
  assumes "conn_inv c" "process_inv newSource ps" "\<And>seed. source_lively (newSource seed)" "p \<noteq> []"
    and "case choice of TakePacket \<Rightarrow> recvQueue c \<noteq> [] | TakeDone \<Rightarrow> ctxDone c"
  shows "\<exists>res c' ps'. ReadFrom newSource choice p c ps = Ret (res, c', ps') \<and> conn_inv c' \<and>
    process_inv newSource ps' \<and> length (rd_buf res) = length p \<and> rd_n res \<le> length p"
proof (cases choice)
  case TakeDone
  then show ?thesis using assms by (simp add: ReadFrom_def read_fail_def)
next
  case TakePacket
  then obtain pkt rest where q: "recvQueue c = pkt # rest" using assms(5) by (cases "recvQueue c") auto
  have c': "conn_inv (c\<lparr>recvQueue := rest\<rparr>)" using assms(1) q by (simp add: conn_inv_def)
  show ?thesis
  proof (cases "pkt_err pkt")
    case None
    then show ?thesis
      using TakePacket q read_packet_total [OF c' assms(2,3,4), of "pkt_data pkt" "pkt_addr pkt"]
      by (auto simp: ReadFrom_def)
  next
    case (Some e)
    then show ?thesis using TakePacket q c' assms(2) by (simp add: ReadFrom_def read_fail_def)
  qed
qed

section \<open>The client's sends\<close>

lemma slot_addr_wf: "length (addr_ip (slot_addr s)) = 4" "0 \<le> addr_port (slot_addr s)" "addr_port (slot_addr s) \<le> 65535"
proof -
  have "uint (slot_sum s) mod 20000 < 20000" "0 \<le> uint (slot_sum s) mod 20000" by simp_all
  then have "uint (slot_sum s) mod 20000 + 20000 \<le> 65535" "0 \<le> uint (slot_sum s) mod 20000 + 20000" by linarith+
  then show "length (addr_ip (slot_addr s)) = 4" "0 \<le> addr_port (slot_addr s)" "addr_port (slot_addr s) \<le> 65535"
    by (simp_all add: slot_addr_def)
qed

lemma slot_addr_string_eq: "udp_string (slot_addr a) = udp_string (slot_addr b) \<longleftrightarrow> slot_addr a = slot_addr b"
  by (metis udp_string_inj slot_addr_wf)

text \<open>Milliseconds left of the slot an instant lies in, counted in whole milliseconds.\<close>

definition ms_left :: "config \<Rightarrow> gotime \<Rightarrow> int" where
  "ms_left cfg t = slot_ms cfg - (wall t div 1000000) mod slot_ms cfg"

lemma slot_of_add_slot:
  assumes "config_ok cfg"
  shows "slot_of cfg (time_add t (SlotDuration cfg)) = slot_of cfg t + 1"
proof -
  have d: "SlotDuration cfg = slot_ms cfg * 1000000" and m: "slot_ms cfg \<noteq> 0"
    using assms config_ok_slot_ms [OF assms] by (auto simp: config_ok_def slot_ms_def)
  have "(wall t + SlotDuration cfg) div 1000000 = wall t div 1000000 + slot_ms cfg"
    by (simp add: d)
  then show ?thesis using m by (simp add: slot_of_def div_add_self2)
qed

lemma clientWrite_sends:
  assumes cfg: "config_ok cfg" and arr: "time_ok (time_add now (latency c))"
    "time_ok (time_add now (latency c + SlotDuration cfg))"
    and l: "localConn c = Some l"
  defines "arrival \<equiv> time_add now (latency c)"
  defines "a1 \<equiv> slot_addr (slot_of cfg arrival)" and "a2 \<equiv> slot_addr (slot_of cfg arrival + 1)"
  shows "\<exists>n err. sockWrite (l, p, Some a1) = (n, err) \<and>
    clientWrite cfg sockWrite now c p = Ret \<lparr>wr_n = n, wr_err = err,
      wr_sends = (if err = None \<and> ms_left cfg arrival < ClientDoubleSendEdgeThresholdMs cfg \<and> a2 \<noteq> a1
        then [(l, p, Some a1), (l, p, Some a2)] else [(l, p, Some a1)])\<rparr>"
proof -
  obtain n err where w: "sockWrite (l, p, Some a1) = (n, err)" by (cases "sockWrite (l, p, Some a1)")
  have sd: "0 \<le> SlotDuration cfg" "1 \<le> slot_ms cfg" "slot_ms cfg < 2 ^ 42"
    using cfg config_ok_slot_ms [OF cfg] by (auto simp: config_ok_def)
  have g1: "GetAddressByTime cfg arrival = Ret (Some a1)"
    unfolding a1_def using sd arr(1) by (intro GetAddressByTime_slot) (auto simp: arrival_def)
  have eq: "time_add arrival (SlotDuration cfg) = time_add now (latency c + SlotDuration cfg)"
    by (simp add: arrival_def time_add_def)
  have g2: "GetAddressByTime cfg (time_add arrival (SlotDuration cfg)) = Ret (Some a2)"
    using GetAddressByTime_slot [of cfg "time_add arrival (SlotDuration cfg)"] sd arr(2)
    by (simp add: slot_of_add_slot [OF cfg, of arrival, unfolded eq] a2_def eq)
  have ms: "go_mod (UnixMilli arrival) (Milliseconds (SlotDuration cfg)) = Ret (slot_ms cfg - ms_left cfg arrival)"
    "wrap64 (ms_left cfg arrival) = ms_left cfg arrival"
  proof -
    have ok: "time_ok arrival" using arr(1) by (simp add: arrival_def)
    then have u: "UnixMilli arrival = wall arrival div 1000000" by (simp add: UnixMilli_ok time_ok_def)
    show "go_mod (UnixMilli arrival) (Milliseconds (SlotDuration cfg)) = Ret (slot_ms cfg - ms_left cfg arrival)"
      using sd time_ok_ms [OF ok] by (simp add: u Milliseconds_slot ms_left_def go_mod_nonneg)
    have "0 \<le> (wall arrival div 1000000) mod slot_ms cfg" "(wall arrival div 1000000) mod slot_ms cfg < slot_ms cfg"
      using sd by simp_all
    then have "0 < ms_left cfg arrival" "ms_left cfg arrival \<le> slot_ms cfg" unfolding ms_left_def by linarith+
    then show "wrap64 (ms_left cfg arrival) = ms_left cfg arrival" using sd(3) by (simp add: wrap64_small)
  qed
  have str: "addr_string (Some a2) = addr_string (Some a1) \<longleftrightarrow> a2 = a1"
    by (simp add: addr_string_def a1_def a2_def slot_addr_string_eq)
  show ?thesis
    using w l g1 g2 ms sd str
    by (auto simp: clientWrite_def arrival_def [symmetric] Let_def Milliseconds_slot)
qed

section \<open>Properties\<close>

text \<open>A client connection and a packet, for the witnesses.\<close>

definition demo_client :: MagicConn where
  "demo_client = \<lparr>isServer = False, latency = 20000000, currentConn = None, nextConn = None,
     localConn = Some 0, recvQueue = [], ctxDone = False, clientCache = NewCIDCache,
     txCounts = (\<lambda>_. None), obfRNG = NewCIDSeedRNG zero_source \<lparr>wall = 1700000000000000000, mono = 0\<rparr>\<rparr>"

definition demo_packet :: bytes where
  "demo_packet = 0x40 # replicate 16 5 @ [1, 2, 3]"

definition demo_server :: MagicConn where
  "demo_server = demo_client\<lparr>isServer := True, localConn := None, currentConn := Some 1\<rparr>"

lemma demo_packet: "short_packet demo_packet" "packet_cid demo_packet = replicate 16 5" "length demo_packet = 20"
  by (simp_all add: short_packet_def packet_cid_def demo_packet_def)

lemma demo_client: "conn_inv demo_client" "\<not> isServer demo_client" "localConn demo_client = Some 0"
    "recvQueue demo_client = []" "sent_count demo_client cid = 0" "\<not> ctxDone demo_client"
    "latency demo_client = 20000000" "known_ids demo_client ps src = []"
  by (simp_all add: demo_client_def conn_inv_def cache_inv_New sent_count_def known_ids_def receiver_cache_def)

lemma demo_server: "conn_inv demo_server" "recvQueue demo_server = []" "isServer demo_server"
    "known_ids demo_server init_process src = []"
  by (simp_all add: demo_server_def demo_client_def conn_inv_def cache_inv_New known_ids_def receiver_cache_def
      GetCache_def init_process_def)

text \<open>
  C2. A packet's real connection ID is restored at the receiving endpoint. Once the receiver
  knows the ID, or one of the sender's first ten packets of the ID arrives, every packet
  that arrives is handed up exactly as the sender passed it in, in order, whichever others
  are lost, although the IDs of the later ones travel encoded. The receiver may know other
  IDs of this source as long as the codec can tell them from this one; the first seven
  bytes of the ID must not all be zero. Without encoding no packet has to arrive first.
\<close>

theorem packets_restored_despite_loss:
  assumes "process_inv newSource sp" "conn_inv r" "process_inv newSource rp"
    and "\<And>seed. source_lively (newSource seed)"
    and "recvQueue r = []" "take 7 cid \<noteq> replicate 7 0"
    and "\<forall>(arrives, p) \<in> set pkts. short_packet p \<and> packet_cid p = cid \<and> length p \<le> cap"
    and "0 \<le> sent_count s cid" "sent_count s cid + int (length pkts) < 2 ^ 62"
    and "separate newSource cid (known_ids r rp src)"
    and "cid \<in> set (known_ids r rp src) \<or> \<not> CIDObfuscationEnabled cfg \<or>
      (\<exists>i < length pkts. fst (pkts ! i) \<and> sent_count s cid + int i < 10)"
  shows "exchange newSource cfg src cap pkts s sp r rp = Ret (map snd (filter fst pkts))"
  by (rule exchange_restores [OF assms])

theorem packets_restored_despite_loss_witness:
  "exchange zero_source default_config (UDPAddr [192, 168, 2, 9] 20500) 1500
     (replicate 5 (False, demo_packet) @ replicate 30 (True, demo_packet))
     demo_client init_process demo_server init_process = Ret (replicate 30 demo_packet)"
proof -
  have "set (replicate 5 (False, demo_packet) @ replicate 30 (True, demo_packet)) \<subseteq> {(False, demo_packet), (True, demo_packet)}"
    by auto
  then have "exchange zero_source default_config (UDPAddr [192, 168, 2, 9] 20500) 1500
     (replicate 5 (False, demo_packet) @ replicate 30 (True, demo_packet))
     demo_client init_process demo_server init_process =
     Ret (map snd (filter fst (replicate 5 (False, demo_packet) @ replicate 30 (True, demo_packet))))"
    by (intro packets_restored_despite_loss [where cid = "replicate 16 5"] init_inv demo_server(1,2) source_lively_zero)
      (auto simp: demo_packet demo_client demo_server nth_append intro!: exI [of _ 5])
  then show ?thesis by (simp del: replicate_Suc replicate.simps add: filter_replicate)
qed

text \<open>
  C19. Sending touches nothing but the connection ID: \<open>WriteTo\<close>'s first half always returns,
  keeps the length, the first byte and everything after the ID, and leaves the packet as it is
  when it has no connection ID, when encoding is off, and for the first ten packets of an ID.
\<close>

theorem encode_packet_scope:
  assumes "process_inv newSource ps" "\<And>seed. source_lively (newSource seed)"
    and "0 \<le> sent_count c (packet_cid p)" "sent_count c (packet_cid p) < 2 ^ 62"
  shows "\<exists>p' c' ps'. encode_packet newSource cfg p c ps = Ret (p', c', ps') \<and> process_inv newSource ps' \<and>
    length p' = length p \<and> take 1 p' = take 1 p \<and> drop 17 p' = drop 17 p \<and>
    (\<not> short_packet p \<or> \<not> CIDObfuscationEnabled cfg \<or> sent_count c (packet_cid p) < 10 \<longrightarrow> p' = p)"
proof -
  have w: "wrap64 (sent_count c (packet_cid p) + 1) = sent_count c (packet_cid p) + 1"
    using assms(3,4) by (simp add: wrap64_small)
  consider "\<not> short_packet p" | "short_packet p" "\<not> (CIDObfuscationEnabled cfg \<and> 9 < sent_count c (packet_cid p))"
    | "short_packet p" "CIDObfuscationEnabled cfg" "9 < sent_count c (packet_cid p)" by blast
  then show ?thesis
  proof cases
    case 1
    then show ?thesis using assms(1) by (simp add: encode_packet_other)
  next
    case 2
    then have "\<not> (CIDObfuscationEnabled cfg \<and> 10 < wrap64 (sent_count c (packet_cid p) + 1))" using w by auto
    then show ?thesis using assms(1) 2(1) by (simp add: encode_packet_plain)
  next
    case 3
    have len: "17 \<le> length p" using 3(1) by (simp add: short_packet_def)
    have "10 < wrap64 (sent_count c (packet_cid p) + 1)" "algo_inv newSource (pr_algo ps)"
      using w 3(3) assms(1) by (simp_all add: process_inv_def)
    then obtain wire rng g where e: "encode_packet newSource cfg p c ps =
        Ret (with_cid p wire, c\<lparr>txCounts := (txCounts c)(packet_cid p \<mapsto> wrap64 (sent_count c (packet_cid p) + 1)),
          obfRNG := rng\<rparr>, ps\<lparr>pr_algo := g\<rparr>)" "length wire = 16" "algo_inv newSource g"
      using encode_packet_obf [of p cfg c newSource ps] 3 assms(2) by blast
    moreover have "process_inv newSource (ps\<lparr>pr_algo := g\<rparr>)" using e(3) assms(1) by (simp add: process_inv_def)
    moreover note with_cid_props [OF len e(2)]
    ultimately show ?thesis using 3 by simp
  qed
qed

theorem encode_packet_scope_witness:
  "\<exists>c ps. encode_packet zero_source default_config demo_packet demo_client init_process = Ret (demo_packet, c, ps)"
  using encode_packet_scope [of zero_source init_process demo_client demo_packet default_config, OF init_inv source_lively_zero]
  by (auto simp: demo_client)

text \<open>
  C30. The first ten packets are needed: when all of them are lost, the eleventh is handed up
  to a receiver that does not know the ID, but with the encoded ID in place of the real one
  (unless the ID happens to start with the two bytes the sender draws).
\<close>

theorem first_ten_lost_not_restored:
  assumes "process_inv newSource sp" "conn_inv r" "process_inv newSource rp"
    and "\<And>seed. source_lively (newSource seed)" and "recvQueue r = []"
    and "short_packet p" "length p \<le> cap" "\<forall>q \<in> set lost. short_packet q \<and> packet_cid q = packet_cid p"
    and "CIDObfuscationEnabled cfg" "0 \<le> sent_count s (packet_cid p)"
    and "sent_count s (packet_cid p) + int (length lost) = 10"
    and "packet_cid p \<notin> set (known_ids r rp src)" "separate newSource (packet_cid p) (known_ids r rp src)"
    and "take 2 (packet_cid p) \<noteq> put_be16 (ucast (fst (Rand_Uint32 (obfRNG s))))"
  shows "\<exists>got. exchange newSource cfg src cap (map (Pair False) lost @ [(True, p)]) s sp r rp = Ret [got] \<and>
    got \<noteq> p \<and> got = with_cid p (packet_cid got) \<and> wire_form newSource (packet_cid p) (packet_cid got)"
proof -
  obtain s' where s': "sent_count s' (packet_cid p) = 10" "obfRNG s' = obfRNG s"
      "exchange newSource cfg src cap (map (Pair False) lost @ [(True, p)]) s sp r rp = exchange newSource cfg src cap [(True, p)] s' sp r rp"
    using exchange_lost [OF assms(8,10), of newSource cfg src cap "[(True, p)]" sp r rp] assms(11) by auto
  obtain w where w: "length w = 16" "take 2 w = put_be16 (ucast (fst (Rand_Uint32 (obfRNG s))))"
      "wire_form newSource (packet_cid p) w" "exchange newSource cfg src cap [(True, p)] s' sp r rp = Ret [with_cid p w]"
    using exchange_unknown [OF assms(1-7,9) s'(1) assms(12,13)] s'(2) by auto
  have "17 \<le> length p" using assms(6) by (simp add: short_packet_def)
  then have cid: "packet_cid (with_cid p w) = w" using w(1) by (simp add: with_cid_props)
  have "with_cid p w \<noteq> p" using cid w(2) assms(14) by metis
  then show ?thesis using cid w(3) trans [OF s'(3) w(4)] by (intro exI [of _ "with_cid p w"]) simp
qed

lemma demo_seed_bytes: "replicate 2 5 \<noteq> put_be16 0"
  by code_simp

theorem first_ten_lost_not_restored_witness:
  "\<exists>got. exchange zero_source default_config (UDPAddr [192, 168, 2, 9] 20500) 1500
     (map (Pair False) (replicate 10 demo_packet) @ [(True, demo_packet)])
     demo_client init_process demo_server init_process = Ret [got] \<and> got \<noteq> demo_packet"
proof -
  have "fst (Rand_Uint32 (obfRNG demo_client)) = 0"
    by (simp add: demo_client_def NewCIDSeedRNG_def rand_New_def Rand_Uint32_def Rand_Int63_def Rand_Uint64_def zero_source_def)
  then have "take 2 (packet_cid demo_packet) \<noteq> put_be16 (ucast (fst (Rand_Uint32 (obfRNG demo_client))))"
    using demo_seed_bytes by (simp add: demo_packet)
  moreover have "CIDObfuscationEnabled default_config" by (simp add: default_config_def)
  ultimately show ?thesis
    using first_ten_lost_not_restored [of zero_source init_process demo_server init_process demo_packet 1500
        "replicate 10 demo_packet" default_config demo_client, OF init_inv demo_server(1) init_inv source_lively_zero demo_server(2)]
    by (auto simp: demo_packet demo_client demo_server simp del: exchange.simps)
qed

text \<open>
  C22. Known limit of the encoding: an ID whose first seven bytes are zero is not restored.
  When the receiver knows such an ID and a packet with its encoding arrives (one that is not
  itself a known ID), the packet is handed up with the encoded ID, which is then taken for a
  new one.
\<close>

theorem zero_prefix_not_restored:
  assumes "conn_inv r" "process_inv newSource rp" "\<And>seed. source_lively (newSource seed)"
    and "short_packet p" "length p \<le> length buf"
    and "cid \<in> set (cids (receiver_cache r rp src))" "length cid = 16" "take 7 cid = replicate 7 0"
    and "Obfuscate newSource g cid seed = Ret (packet_cid p, g')" "algo_inv newSource g"
    and "packet_cid p \<notin> set (cids (receiver_cache r rp src))"
  shows "\<exists>res r' rp'. read_packet newSource buf p (Some src) r rp = Ret (res, r', rp') \<and>
    delivered res = p \<and> packet_cid (delivered res) \<noteq> cid \<and>
    packet_cid p \<in> set (cids (receiver_cache r' rp' src))"
proof -
  have "algo_inv newSource (pr_algo rp)" using assms(2) by (simp add: process_inv_def)
  moreover have "\<forall>h. algo_inv newSource h \<longrightarrow> (\<exists>h'. algo_inv newSource h' \<and>
      Deobfuscate newSource h (packet_cid p) = Ret (take 7 cid @ replicate 9 0, h'))"
    using codec_any [of newSource g cid seed, OF assms(10,3)] assms(7,9) by auto
  ultimately obtain h' where "Deobfuscate newSource (pr_algo rp) (packet_cid p) = Ret (take 7 cid @ replicate 9 0, h')"
      "algo_inv newSource h'" by blast
  then show ?thesis
    using receive_zero_prefix [OF assms(1,2,3,4,5,8,11)] assms(6,11) by fastforce
qed

theorem zero_prefix_not_restored_witness:
  "\<exists>p res r ps. read_packet zero_source (replicate 100 0) p (Some fakeAddr)
      (demo_client\<lparr>clientCache := AddReal NewCIDCache (replicate 16 0)\<rparr>) init_process = Ret (res, r, ps) \<and>
    packet_cid (delivered res) \<noteq> replicate 16 0"
proof -
  obtain wire g where w: "Obfuscate zero_source init_algo (replicate 16 0) 48879 = Ret (wire, g)"
      "length wire = 16" "take 2 wire = put_be16 48879"
    using codec_any [of zero_source init_algo "replicate 16 0" 48879, OF algo_inv_init source_lively_zero] by auto
  let ?r = "demo_client\<lparr>clientCache := AddReal NewCIDCache (replicate 16 0)\<rparr>" and ?p = "0x40 # wire"
  have p: "short_packet ?p" "packet_cid ?p = wire" using w(2) by (simp_all add: short_packet_def packet_cid_def)
  have c: "cids (receiver_cache ?r init_process fakeAddr) = [replicate 16 0]" "conn_inv ?r"
    using AddReal_refines [OF cache_inv_New(1)] cache_inv_New(2)
    by (simp_all add: receiver_cache_def demo_client_def conn_inv_def spec_add_def)
  have "hd (take 2 wire) \<noteq> 0" unfolding w(3) by (simp add: put_be16_def)
  then have "wire \<noteq> replicate 16 0" by auto
  then show ?thesis
    using zero_prefix_not_restored [of ?r zero_source init_process ?p "replicate 100 0" "replicate 16 0" fakeAddr
        init_algo 48879 g, OF c(2) init_inv source_lively_zero p(1)] w p(2) c(1) algo_inv_init
    by auto
qed

text \<open>
  C20. \<open>ReadFrom\<close> always returns once there is a packet or the context is done, never panics
  for a non-empty buffer, keeps the invariants of the caches and the queue, and reports at
  most as many bytes as the buffer has.
\<close>

theorem ReadFrom_safe:
  assumes "conn_inv c" "process_inv newSource ps" "\<And>seed. source_lively (newSource seed)" "p \<noteq> []"
    and "case choice of TakePacket \<Rightarrow> recvQueue c \<noteq> [] | TakeDone \<Rightarrow> ctxDone c"
  shows "\<exists>res c' ps'. ReadFrom newSource choice p c ps = Ret (res, c', ps') \<and> conn_inv c' \<and>
    process_inv newSource ps' \<and> length (rd_buf res) = length p \<and> rd_n res \<le> length p"
  by (rule ReadFrom_total [OF assms])

theorem ReadFrom_safe_witness:
  "\<exists>res c ps. ReadFrom zero_source TakePacket [0, 0, 0]
     (demo_client\<lparr>recvQueue := [\<lparr>pkt_data = demo_packet, pkt_addr = None, pkt_err = None\<rparr>]\<rparr>) init_process
     = Ret (res, c, ps) \<and> rd_n res \<le> 3"
  using ReadFrom_safe [of "demo_client\<lparr>recvQueue := [\<lparr>pkt_data = demo_packet, pkt_addr = None, pkt_err = None\<rparr>]\<rparr>"
      zero_source init_process "[0, 0, 0]" TakePacket, OF _ init_inv source_lively_zero]
    demo_client(1) by (auto simp: conn_inv_def queue_capacity_def)

text \<open>
  C21. An endpoint reports the packet's source on the server and one fixed address on the
  client, and a server's packet from one source leaves the sessions of all others alone.
\<close>

theorem read_packet_source:
  assumes "read_packet newSource p data (Some src) c ps = Ret (res, c', ps')"
  shows "rd_err res = None \<and> rd_addr res = (if isServer c then Some src else Some fakeAddr) \<and>
    (\<forall>a. a \<noteq> udp_string src \<longrightarrow> pr_sessions ps' a = pr_sessions ps a) \<and>
    (\<not> isServer c \<longrightarrow> pr_sessions ps' = pr_sessions ps)"
  using assms
  by (auto simp: read_packet_def read_ok_def fill_buffer_def GetCache_def Let_def
      split: if_splits option.splits prod.splits)

theorem read_packet_source_witness:
  "\<exists>res c ps. read_packet zero_source [0, 0, 0] [0xC0, 1] (Some (UDPAddr [10, 0, 0, 1] 99)) demo_server init_process
      = Ret (res, c, ps) \<and> rd_addr res = Some (UDPAddr [10, 0, 0, 1] 99)"
proof -
  obtain res c ps where r: "read_packet zero_source [0, 0, 0] [0xC0, 1] (Some (UDPAddr [10, 0, 0, 1] 99))
      demo_server init_process = Ret (res, c, ps)"
    using read_packet_total [of demo_server zero_source init_process "[0, 0, 0]", OF demo_server(1) init_inv source_lively_zero]
    by blast
  then show ?thesis using read_packet_source [OF r] demo_server(3) by auto
qed

text \<open>The pump on a sequence of datagrams.\<close>

fun pump_run :: "MagicConn \<Rightarrow> (bytes \<times> udp_addr option) list \<Rightarrow> (MagicConn \<times> bool) go" where
  "pump_run c [] = Ret (c, True)"
| "pump_run c ((d, a) # ds) =
     go_bind (pump_step c False (ReadOk d a)) (\<lambda>(c', go_on). if go_on then pump_run c' ds else Ret (c', False))"

text \<open>
  C31. A burst of datagrams fills the queue in order up to its capacity of 2048; what does not
  fit is dropped, and the pump goes on.
\<close>

theorem pump_burst:
  assumes "length (recvQueue c) \<le> 2048" "\<not> ctxDone c"
  shows "pump_run c ds = Ret (c\<lparr>recvQueue := take 2048 (recvQueue c @
    map (\<lambda>(d, a). \<lparr>pkt_data = d, pkt_addr = a, pkt_err = None\<rparr>) ds)\<rparr>, True)"
  using assms
proof (induction ds arbitrary: c)
  case Nil
  then show ?case by simp
next
  case (Cons x ds)
  obtain d a where x: "x = (d, a)" by (cases x)
  show ?case
  proof (cases "length (recvQueue c) < 2048")
    case True
    then have "2048 - length (recvQueue c) = Suc (2047 - length (recvQueue c))" by simp
    then show ?thesis using True Cons x by (simp add: queue_capacity_def)
  next
    case False
    then have "take 2048 (recvQueue c @ xs) = recvQueue c" for xs using Cons.prems by simp
    then show ?thesis using False Cons x by (simp add: queue_capacity_def)
  qed
qed

theorem pump_burst_witness:
  "pump_run demo_client [(demo_packet, None)] =
     Ret (demo_client\<lparr>recvQueue := [\<lparr>pkt_data = demo_packet, pkt_addr = None, pkt_err = None\<rparr>]\<rparr>, True)"
  using pump_burst [of demo_client "[(demo_packet, None)]"] by (simp add: demo_client)

end
