(* ===== verification/Server_Hop.thy ===== *)
theory Server_Hop
  imports Conn_Correct
begin

unbundle bit_operations_syntax

text \<open>
  The socket life cycle of \<open>pkg/magic/conn.go\<close>: \<open>NewServerConn\<close>, \<open>serverHoppingLoop\<close> and
  \<open>hop\<close>, the delayed close of the old port, \<open>LocalAddr\<close> and \<open>Close\<close>, over a model of the
  sockets the operating system holds open. \<open>hop\<close> is cut where its locks and system calls
  let other goroutines run; a step relation interleaves it with \<open>Close\<close>, the close timers
  and the traffic.
\<close>

section \<open>State\<close>

text \<open>Where the hopping loop is: waiting for its timer, or inside \<open>hop\<close> with its locals.\<close>

datatype hop_pc =
    HopWait
  | HopListen (hop_prev: "sock option") (hop_new: "sock option")
  | HopStore (hop_prev: "sock option") (hop_new: "sock option") (hop_next: sock)
  | HopExited

record endpoint =
  ep_conn :: MagicConn
  ep_open :: "(sock \<times> udp_addr) list" \<comment> \<open>open sockets and where they are bound\<close>
  ep_names :: "(sock \<times> udp_addr) list" \<comment> \<open>the address of every socket ever made\<close>
  ep_fresh :: sock
  ep_pumps :: "sock list" \<comment> \<open>sockets with a running \<open>packetPump\<close>\<close>
  ep_closing :: "sock list" \<comment> \<open>sockets whose close timer runs\<close>
  ep_pc :: hop_pc

text \<open>
  \<open>net.ListenPacket\<close>: a bind fails when the address is taken, or when the system refuses
  (\<open>os_ok\<close> false).
\<close>

definition listen_packet :: "bool \<Rightarrow> udp_addr option \<Rightarrow> endpoint \<Rightarrow> (error + sock) \<times> endpoint" where
  "listen_packet os_ok a e =
     (case a of
        None \<Rightarrow> (Inl ''missing address'', e)
      | Some u \<Rightarrow>
          if os_ok \<and> u \<notin> set (map snd (ep_open e))
          then (Inr (ep_fresh e),
                e\<lparr>ep_open := (ep_fresh e, u) # ep_open e, ep_names := (ep_fresh e, u) # ep_names e,
                  ep_fresh := Suc (ep_fresh e)\<rparr>)
          else (Inl ''bind: address already in use'', e))"

definition close_sock :: "sock \<Rightarrow> endpoint \<Rightarrow> error option \<times> endpoint" where
  "close_sock l e =
     (if l \<in> set (map fst (ep_open e))
      then (None, e\<lparr>ep_open := filter (\<lambda>(k, _). k \<noteq> l) (ep_open e)\<rparr>)
      else (Some errClosed, e))"

definition start_pump :: "sock \<Rightarrow> endpoint \<Rightarrow> endpoint" where
  "start_pump l e = e\<lparr>ep_pumps := ep_pumps e @ [l]\<rparr>"

definition set_conn :: "(MagicConn \<Rightarrow> MagicConn) \<Rightarrow> endpoint \<Rightarrow> endpoint" where
  "set_conn f e = e\<lparr>ep_conn := f (ep_conn e)\<rparr>"

section \<open>NewServerConn\<close>

definition new_server_state :: "(u64 \<Rightarrow> nat \<Rightarrow> u64) \<Rightarrow> gotime \<Rightarrow> endpoint" where
  "new_server_state newSource now =
     \<lparr>ep_conn = \<lparr>isServer = True, latency = 0, currentConn = None, nextConn = None,
        localConn = None, recvQueue = [], ctxDone = False, clientCache = NewCIDCache,
        txCounts = (\<lambda>_. None), obfRNG = NewCIDSeedRNG newSource now\<rparr>,
      ep_open = [], ep_names = [], ep_fresh = 0, ep_pumps = [], ep_closing = [], ep_pc = HopWait\<rparr>"

text \<open>The address one millisecond inside the next slot, as \<open>NewServerConn\<close> and \<open>hop\<close> compute it.\<close>

definition next_hop_addr :: "config \<Rightarrow> gotime \<Rightarrow> gotime \<Rightarrow> udp_addr option go" where
  "next_hop_addr cfg now1 now2 =
     go_bind (GetNextHopDelay cfg now2) (\<lambda>d.
       GetAddressByTime cfg (time_add now1 (wrap64 (d + Millisecond))))"

definition NewServerConn ::
  "(u64 \<Rightarrow> nat \<Rightarrow> u64) \<Rightarrow> config \<Rightarrow> gotime \<Rightarrow> gotime \<Rightarrow> gotime \<Rightarrow> bool \<Rightarrow> bool \<Rightarrow> (error + endpoint) go" where
  "NewServerConn newSource cfg now0 now now2 os_ok1 os_ok2 =
     go_bind (GetAddressByTime cfg now) (\<lambda>addr.
       case listen_packet os_ok1 addr (new_server_state newSource now0) of
         (Inl err, _) \<Rightarrow> Ret (Inl err)
       | (Inr l, e) \<Rightarrow>
           let e1 = start_pump l (set_conn (\<lambda>c. c\<lparr>currentConn := Some l\<rparr>) e)
           in if ServerPrebindNextPortEnabled cfg
              then go_bind (next_hop_addr cfg now now2) (\<lambda>nextAddr.
                case listen_packet os_ok2 nextAddr e1 of
                  (Inr nextL, e2) \<Rightarrow>
                    Ret (Inr (start_pump nextL (set_conn (\<lambda>c. c\<lparr>nextConn := Some nextL\<rparr>) e2)))
                | (Inl _, e2) \<Rightarrow> Ret (Inr e2))
              else Ret (Inr e1))"

section \<open>hop\<close>

text \<open>The first critical section: promote the prebound socket.\<close>

definition hop_promote :: "endpoint \<Rightarrow> endpoint" where
  "hop_promote e =
     (let c = ep_conn e; prevConn = currentConn c
      in case nextConn c of
           Some m \<Rightarrow> e\<lparr>ep_conn := c\<lparr>currentConn := Some m, nextConn := None\<rparr>,
                       ep_pc := HopListen prevConn (Some m)\<rparr>
         | None \<Rightarrow> e\<lparr>ep_pc := HopListen prevConn (currentConn c)\<rparr>)"

text \<open>The end: a close timer for the old socket unless it stays in use.\<close>

definition hop_finish :: "sock option \<Rightarrow> sock option \<Rightarrow> endpoint \<Rightarrow> endpoint" where
  "hop_finish prevConn newCurrent e =
     e\<lparr>ep_closing := (case prevConn of
          Some l \<Rightarrow> if prevConn \<noteq> newCurrent then ep_closing e @ [l] else ep_closing e
        | None \<Rightarrow> ep_closing e),
       ep_pc := HopWait\<rparr>"

text \<open>Binding the port of the next slot, outside the lock.\<close>

definition hop_listen ::
  "config \<Rightarrow> gotime \<Rightarrow> gotime \<Rightarrow> bool \<Rightarrow> sock option \<Rightarrow> sock option \<Rightarrow> endpoint \<Rightarrow> endpoint go" where
  "hop_listen cfg now1 now2 os_ok prevConn newCurrent e =
     (if ServerPrebindNextPortEnabled cfg
      then go_bind (next_hop_addr cfg now1 now2) (\<lambda>nextAddr.
        case listen_packet os_ok nextAddr e of
          (Inr nextL, e') \<Rightarrow> Ret (e'\<lparr>ep_pc := HopStore prevConn newCurrent nextL\<rparr>)
        | (Inl _, e') \<Rightarrow> Ret (hop_finish prevConn newCurrent e'))
      else Ret (hop_finish prevConn newCurrent e))"

text \<open>The second critical section, the new pump and the end.\<close>

definition hop_store :: "sock option \<Rightarrow> sock option \<Rightarrow> sock \<Rightarrow> endpoint \<Rightarrow> endpoint" where
  "hop_store prevConn newCurrent nextL e =
     hop_finish prevConn newCurrent
       (start_pump nextL (set_conn (\<lambda>c. c\<lparr>nextConn := Some nextL\<rparr>) e))"

text \<open>\<open>hop\<close> when nothing else runs in between.\<close>

definition hop :: "config \<Rightarrow> gotime \<Rightarrow> gotime \<Rightarrow> bool \<Rightarrow> endpoint \<Rightarrow> endpoint go" where
  "hop cfg now1 now2 os_ok e =
     (let e1 = hop_promote e; prevConn = hop_prev (ep_pc e1); newCurrent = hop_new (ep_pc e1)
      in go_bind (hop_listen cfg now1 now2 os_ok prevConn newCurrent e1) (\<lambda>e2.
        case ep_pc e2 of
          HopStore _ _ nextL \<Rightarrow> Ret (hop_store prevConn newCurrent nextL e2)
        | _ \<Rightarrow> Ret e2))"

section \<open>LocalAddr and Close\<close>

definition LocalAddr :: "endpoint \<Rightarrow> udp_addr option" where
  "LocalAddr e =
     (let c = ep_conn e
      in case (if isServer c then currentConn c else None) of
           Some l \<Rightarrow> map_of (ep_names e) l
         | None \<Rightarrow> (case localConn c of
               Some l \<Rightarrow> map_of (ep_names e) l
             | None \<Rightarrow> Some (UDPAddr [0, 0, 0, 0] 0)))"

definition Close :: "endpoint \<Rightarrow> error option \<times> endpoint" where
  "Close e =
     (let e0 = set_conn (\<lambda>c. c\<lparr>ctxDone := True\<rparr>) e; c = ep_conn e0;
          (err1, e1) = (case (if isServer c then currentConn c else None) of
            Some l \<Rightarrow> close_sock l e0 | None \<Rightarrow> (None, e0));
          e2 = (case (if isServer c then nextConn c else None) of
            Some l \<Rightarrow> snd (close_sock l e1) | None \<Rightarrow> e1)
      in case localConn c of
           Some l \<Rightarrow> close_sock l e2
         | None \<Rightarrow> (err1, e2))"

section \<open>The interleaving\<close>

text \<open>
  What reading, writing and the pumps may change: everything but the sockets. A pump ends when
  its socket is closed, after any other read error, or when the context is done; the parent
  context may be cancelled at any time without a \<open>Close\<close>.
\<close>

definition same_sockets :: "MagicConn \<Rightarrow> MagicConn \<Rightarrow> bool" where
  "same_sockets c c' \<longleftrightarrow> isServer c' = isServer c \<and> currentConn c' = currentConn c \<and>
     nextConn c' = nextConn c \<and> localConn c' = localConn c \<and> ctxDone c' = ctxDone c"

inductive ep_step :: "config \<Rightarrow> endpoint \<Rightarrow> endpoint \<Rightarrow> bool" for cfg where
  tick: "ep_pc e = HopWait \<Longrightarrow> ep_step cfg e (hop_promote e)"
| listen: "ep_pc e = HopListen prevConn newCurrent \<Longrightarrow>
     hop_listen cfg now1 now2 os_ok prevConn newCurrent e = Ret e' \<Longrightarrow> ep_step cfg e e'"
| store: "ep_pc e = HopStore prevConn newCurrent nextL \<Longrightarrow>
     ep_step cfg e (hop_store prevConn newCurrent nextL e)"
| loop_exit: "ep_pc e = HopWait \<Longrightarrow> ctxDone (ep_conn e) \<Longrightarrow> ep_step cfg e (e\<lparr>ep_pc := HopExited\<rparr>)"
| old_close: "l \<in> set (ep_closing e) \<Longrightarrow>
     ep_step cfg e (snd (close_sock l e)\<lparr>ep_closing := remove1 l (ep_closing e)\<rparr>)"
| pump_exit: "l \<in> set (ep_pumps e) \<Longrightarrow> ep_step cfg e (e\<lparr>ep_pumps := remove1 l (ep_pumps e)\<rparr>)"
| traffic: "same_sockets (ep_conn e) c' \<Longrightarrow> ep_step cfg e (e\<lparr>ep_conn := c'\<rparr>)"
| cancel: "ep_step cfg e (set_conn (\<lambda>c. c\<lparr>ctxDone := True\<rparr>) e)"
| close: "ep_step cfg e (snd (Close e))"

inductive ep_reach :: "config \<Rightarrow> endpoint \<Rightarrow> endpoint \<Rightarrow> bool" for cfg e0 where
  start: "ep_reach cfg e0 e0"
| step: "ep_reach cfg e0 e \<Longrightarrow> ep_step cfg e e' \<Longrightarrow> ep_reach cfg e0 e'"

end
