(* ===== verification/Server_Hop_Correct.thy ===== *)
theory Server_Hop_Correct
  imports Server_Hop
begin

text \<open>
  Correctness of the socket life cycle of \<open>pkg/magic/conn.go\<close>: an account of every open
  socket that all interleavings keep, the effect of \<open>Close\<close>, the steady rhythm of \<open>hop\<close>,
  what happens when prebinding fails or is switched off, and the sockets a client's packets reach.
\<close>

section \<open>Accounting for the sockets\<close>

definition opt_list :: "'a option \<Rightarrow> 'a list" where
  "opt_list x = (case x of Some a \<Rightarrow> [a] | None \<Rightarrow> [])"

text \<open>The sockets the loop holds in its locals while inside \<open>hop\<close>.\<close>

fun pc_socks :: "hop_pc \<Rightarrow> sock list" where
  "pc_socks HopWait = []"
| "pc_socks (HopListen p n) = (if p \<noteq> n then opt_list p else [])"
| "pc_socks (HopStore p n l) = (if p \<noteq> n then opt_list p else []) @ [l]"
| "pc_socks HopExited = []"

definition tracked :: "endpoint \<Rightarrow> sock list" where
  "tracked e = opt_list (currentConn (ep_conn e)) @ opt_list (nextConn (ep_conn e)) @
     pc_socks (ep_pc e) @ ep_closing e"

definition open_socks :: "endpoint \<Rightarrow> sock list" where
  "open_socks e = map fst (ep_open e)"

text \<open>
  While the connection is not closed, the open sockets are exactly the current one, the
  prebound one, those in the hands of \<open>hop\<close> and those whose close timer runs, each in
  one role only.
\<close>

definition sockets_inv :: "endpoint \<Rightarrow> bool" where
  "sockets_inv e \<longleftrightarrow>
     isServer (ep_conn e) \<and> \<not> ctxDone (ep_conn e) \<and> localConn (ep_conn e) = None \<and>
     currentConn (ep_conn e) \<noteq> None \<and>
     mset (tracked e) = mset (open_socks e) \<and> distinct (open_socks e) \<and>
     distinct (map snd (ep_open e)) \<and> (\<forall>l \<in> set (open_socks e). l < ep_fresh e) \<and>
     (ep_pc e \<noteq> HopWait \<longrightarrow> nextConn (ep_conn e) = None) \<and> ep_pc e \<noteq> HopExited"

lemma opt_list_simps [simp]: "opt_list None = []" "opt_list (Some a) = [a]"
  by (simp_all add: opt_list_def)

lemma opt_list_eq_Nil [simp]: "opt_list x = [] \<longleftrightarrow> x = None"
  by (cases x) simp_all

lemma set_opt_list [simp]: "set (opt_list x) = set_option x"
  by (cases x) simp_all

lemma listen_packet_cases:
  assumes "listen_packet os_ok a e = (res, e')"
  shows "(\<exists>err. res = Inl err \<and> e' = e) \<or>
    (\<exists>u. a = Some u \<and> res = Inr (ep_fresh e) \<and> u \<notin> set (map snd (ep_open e)) \<and>
      e' = e\<lparr>ep_open := (ep_fresh e, u) # ep_open e, ep_names := (ep_fresh e, u) # ep_names e,
             ep_fresh := Suc (ep_fresh e)\<rparr>)"
  using assms by (auto simp: listen_packet_def split: option.splits if_splits)

lemma hop_finish_simps [simp]:
  "ep_conn (hop_finish p n e) = ep_conn e" "ep_open (hop_finish p n e) = ep_open e"
  "ep_fresh (hop_finish p n e) = ep_fresh e" "ep_pc (hop_finish p n e) = HopWait"
  "ep_names (hop_finish p n e) = ep_names e" "ep_pumps (hop_finish p n e) = ep_pumps e"
  "mset (ep_closing (hop_finish p n e)) = mset (if p \<noteq> n then opt_list p else []) + mset (ep_closing e)"
  by (cases p; simp add: hop_finish_def)+

lemma tracked_distinct: "sockets_inv e \<Longrightarrow> distinct (tracked e)"
  unfolding sockets_inv_def by (metis mset_eq_imp_distinct_iff)

lemma inv_promote:
  assumes "sockets_inv e" "ep_pc e = HopWait"
  shows "sockets_inv (hop_promote e)"
proof -
  obtain k where k: "currentConn (ep_conn e) = Some k" using assms(1) by (auto simp: sockets_inv_def)
  show ?thesis
  proof (cases "nextConn (ep_conn e)")
    case None
    then show ?thesis
      using assms k by (simp add: sockets_inv_def hop_promote_def Let_def tracked_def open_socks_def)
  next
    case (Some m)
    then have "k \<noteq> m" using tracked_distinct [OF assms(1)] k by (simp add: tracked_def)
    then show ?thesis
      using assms k Some
      by (simp add: sockets_inv_def hop_promote_def Let_def tracked_def open_socks_def add_mset_commute)
  qed
qed

lemma inv_finish:
  assumes "sockets_inv e" "ep_pc e = HopListen p n"
  shows "sockets_inv (hop_finish p n e)"
  using assms by (auto simp: sockets_inv_def tracked_def open_socks_def)

lemma inv_listen:
  assumes "sockets_inv e" "ep_pc e = HopListen p n" "hop_listen cfg now1 now2 os_ok p n e = Ret e'"
  shows "sockets_inv e'"
proof (cases "ServerPrebindNextPortEnabled cfg")
  case False
  then show ?thesis using assms(3) inv_finish [OF assms(1,2)] by (simp add: hop_listen_def)
next
  case True
  obtain a where na: "next_hop_addr cfg now1 now2 = Ret a"
    using True assms(3) by (auto simp: hop_listen_def)
  obtain res e1 where l: "listen_packet os_ok a e = (res, e1)" by (cases "listen_packet os_ok a e")
  have a: "listen_packet os_ok a e = (res, e1)"
      "e' = (case res of Inr l \<Rightarrow> e1\<lparr>ep_pc := HopStore p n l\<rparr> | Inl _ \<Rightarrow> hop_finish p n e1)"
    using True assms(3) na l by (auto simp: hop_listen_def split: sum.splits)
  from listen_packet_cases [OF a(1)] show ?thesis
  proof
    assume "\<exists>err. res = Inl err \<and> e1 = e"
    then show ?thesis using a(2) inv_finish [OF assms(1,2)] by auto
  next
    assume "\<exists>u. a = Some u \<and> res = Inr (ep_fresh e) \<and> u \<notin> set (map snd (ep_open e)) \<and>
      e1 = e\<lparr>ep_open := (ep_fresh e, u) # ep_open e, ep_names := (ep_fresh e, u) # ep_names e,
             ep_fresh := Suc (ep_fresh e)\<rparr>"
    moreover have "(ep_fresh e, b) \<notin> set (ep_open e)" for b
      using assms(1) by (auto simp: sockets_inv_def open_socks_def)
    moreover have "(k, b) \<in> set (ep_open e) \<Longrightarrow> k < ep_fresh e" for k b
      using assms(1) by (force simp: sockets_inv_def open_socks_def)
    ultimately show ?thesis
      using a(2) assms(1,2) by (auto simp: sockets_inv_def tracked_def open_socks_def less_Suc_eq)
  qed
qed

lemma inv_store:
  assumes "sockets_inv e" "ep_pc e = HopStore p n l"
  shows "sockets_inv (hop_store p n l e)"
  using assms
  by (auto simp: sockets_inv_def tracked_def open_socks_def hop_store_def start_pump_def set_conn_def)

lemma filter_neq_remove1: "distinct xs \<Longrightarrow> filter (\<lambda>k. k \<noteq> l) xs = remove1 l xs"
  by (induction xs) (auto simp: filter_id_conv)

lemma inv_old_close:
  assumes "sockets_inv e" "l \<in> set (ep_closing e)"
  shows "sockets_inv (snd (close_sock l e)\<lparr>ep_closing := remove1 l (ep_closing e)\<rparr>)"
proof -
  have m: "mset (tracked e) = mset (open_socks e)" and d: "distinct (open_socks e)"
    using assms(1) by (simp_all add: sockets_inv_def)
  define opn where "opn = filter (\<lambda>(k, _). k \<noteq> l) (ep_open e)"
  let ?e = "e\<lparr>ep_open := opn, ep_closing := remove1 l (ep_closing e)\<rparr>"
  have "l \<in> set (tracked e)" using assms(2) by (simp add: tracked_def)
  then have l: "l \<in> set (open_socks e)" using mset_eq_setD [OF m] by simp
  have keys: "map fst opn = filter (\<lambda>k. k \<noteq> l) (open_socks e)"
    by (simp add: opn_def open_socks_def filter_map o_def case_prod_unfold)
  have "mset (filter (\<lambda>k. k \<noteq> l) (open_socks e)) = mset (open_socks e) - {#l#}"
    using d by (simp add: filter_neq_remove1)
  moreover have "mset (tracked ?e) = mset (tracked e) - {#l#}"
    using assms(2) by (simp add: tracked_def)
  ultimately have "mset (tracked ?e) = mset (open_socks ?e)"
    using m keys by (simp add: open_socks_def)
  moreover have "distinct (map snd opn)"
    using assms(1) by (simp add: sockets_inv_def opn_def distinct_map_filter)
  moreover have "set (open_socks ?e) \<subseteq> set (open_socks e)" "distinct (open_socks ?e)"
    using d keys by (auto simp: open_socks_def)
  ultimately have "sockets_inv ?e" using assms(1) unfolding sockets_inv_def by auto
  moreover have "snd (close_sock l e)\<lparr>ep_closing := remove1 l (ep_closing e)\<rparr> = ?e"
    using l by (simp add: close_sock_def open_socks_def opn_def)
  ultimately show ?thesis by simp
qed

lemma inv_step:
  assumes "ep_step cfg e e'" "sockets_inv e" "\<not> ctxDone (ep_conn e')"
  shows "sockets_inv e'"
  using assms
proof (induction rule: ep_step.induct)
  case (tick e)
  then show ?case by (blast intro: inv_promote)
next
  case (listen e p n now1 now2 os_ok e')
  then show ?case by (blast intro: inv_listen)
next
  case (store e p n l)
  then show ?case by (blast intro: inv_store)
next
  case (loop_exit e)
  then show ?case by (simp add: sockets_inv_def)
next
  case (old_close l e)
  then show ?case by (blast intro: inv_old_close)
next
  case (pump_exit l e)
  then show ?case by (simp add: sockets_inv_def tracked_def open_socks_def)
next
  case (traffic e c')
  then show ?case by (auto simp: sockets_inv_def same_sockets_def tracked_def open_socks_def)
next
  case (cancel e)
  then show ?case by (simp add: set_conn_def)
next
  case (close e)
  have "ctxDone (ep_conn (snd (Close e)))"
    by (auto simp: Close_def close_sock_def set_conn_def Let_def split: option.splits prod.splits)
  then show ?case using close by simp
qed

lemma ctxDone_Close: "ctxDone (ep_conn (snd (Close e)))"
  by (auto simp: Close_def close_sock_def set_conn_def Let_def split: option.splits prod.splits)

lemma ctxDone_step: "ep_step cfg e e' \<Longrightarrow> ctxDone (ep_conn e) \<Longrightarrow> ctxDone (ep_conn e')"
proof (induction rule: ep_step.induct)
  case (tick e)
  then show ?case by (simp add: hop_promote_def Let_def split: option.splits)
next
  case (listen e p n now1 now2 os_ok e')
  then show ?case
    by (auto simp: hop_listen_def listen_packet_def split: if_splits option.splits)
qed (auto simp: hop_store_def start_pump_def set_conn_def close_sock_def same_sockets_def Close_def Let_def
      split: option.splits prod.splits)

lemma reach_inv:
  assumes "ep_reach cfg e0 e" "sockets_inv e0" "\<not> ctxDone (ep_conn e)"
  shows "sockets_inv e"
  using assms
proof (induction rule: ep_reach.induct)
  case (step e e')
  then show ?case using ctxDone_step inv_step by blast
qed

section \<open>A new server\<close>

lemma NewServerConn_cases:
  assumes "NewServerConn newSource cfg now0 now now2 ok1 ok2 = Ret (Inr e)"
  shows "\<exists>a. GetAddressByTime cfg now = Ret (Some a) \<and>
    currentConn (ep_conn e) = Some 0 \<and> (0, a) \<in> set (ep_open e) \<and> map_of (ep_names e) 0 = Some a \<and>
    isServer (ep_conn e) \<and> \<not> ctxDone (ep_conn e) \<and> localConn (ep_conn e) = None \<and>
    ep_closing e = [] \<and> ep_pc e = HopWait \<and>
    (nextConn (ep_conn e) = None \<and> ep_open e = [(0, a)] \<and> ep_fresh e = 1 \<or>
     ServerPrebindNextPortEnabled cfg \<and>
     (\<exists>b. next_hop_addr cfg now now2 = Ret (Some b) \<and> b \<noteq> a \<and>
      nextConn (ep_conn e) = Some 1 \<and> ep_open e = [(1, b), (0, a)] \<and> ep_fresh e = 2))"
proof -
  obtain a' where ga: "GetAddressByTime cfg now = Ret a'"
    using assms by (auto simp: NewServerConn_def)
  obtain a where a: "a' = Some a" and ok1: "ok1"
    using assms ga by (cases a') (auto simp: NewServerConn_def listen_packet_def new_server_state_def split: if_splits)
  define e1 where "e1 = start_pump 0 (set_conn (\<lambda>c. c\<lparr>currentConn := Some 0\<rparr>)
    ((new_server_state newSource now0)\<lparr>ep_open := [(0, a)], ep_names := [(0, a)], ep_fresh := 1\<rparr>))"
  have e1: "NewServerConn newSource cfg now0 now now2 ok1 ok2 =
    (if ServerPrebindNextPortEnabled cfg
     then go_bind (next_hop_addr cfg now now2) (\<lambda>nextAddr.
            case listen_packet ok2 nextAddr e1 of
              (Inr nextL, e2) \<Rightarrow> Ret (Inr (start_pump nextL (set_conn (\<lambda>c. c\<lparr>nextConn := Some nextL\<rparr>) e2)))
            | (Inl _, e2) \<Rightarrow> Ret (Inr e2))
     else Ret (Inr e1))"
    using ga a ok1 by (simp add: NewServerConn_def listen_packet_def new_server_state_def e1_def Let_def)
  have f: "ep_open e1 = [(0, a)]" "ep_names e1 = [(0, a)]" "ep_fresh e1 = 1" "ep_closing e1 = []"
    "ep_pc e1 = HopWait" "currentConn (ep_conn e1) = Some 0" "nextConn (ep_conn e1) = None"
    "isServer (ep_conn e1)" "\<not> ctxDone (ep_conn e1)" "localConn (ep_conn e1) = None"
    by (simp_all add: e1_def start_pump_def set_conn_def new_server_state_def)
  show ?thesis
  proof (cases "ServerPrebindNextPortEnabled cfg")
    case False
    then show ?thesis using assms e1 ga a f by auto
  next
    case True
    then obtain nx where nx: "next_hop_addr cfg now now2 = Ret nx" using assms e1 by auto
    obtain res e2 where l: "listen_packet ok2 nx e1 = (res, e2)" by (cases "listen_packet ok2 nx e1")
    from listen_packet_cases [OF l] show ?thesis
      using assms e1 ga a f nx l True
      by (elim disjE exE conjE) (auto simp: start_pump_def set_conn_def)
  qed
qed

lemma NewServerConn_inv:
  assumes "NewServerConn newSource cfg now0 now now2 ok1 ok2 = Ret (Inr e)"
  shows "sockets_inv e"
  using NewServerConn_cases [OF assms]
  by (auto simp: sockets_inv_def tracked_def open_socks_def)

text \<open>
  Without prebinding, nothing ever replaces the first socket \<open>l\<close>, bound to \<open>a\<close>, and no close
  timer is started: it stays open until the connection is closed.
\<close>

definition never_hops :: "sock \<Rightarrow> udp_addr \<Rightarrow> endpoint \<Rightarrow> bool" where
  "never_hops l a e \<longleftrightarrow> isServer (ep_conn e) \<and> currentConn (ep_conn e) = Some l \<and> nextConn (ep_conn e) = None \<and>
     localConn (ep_conn e) = None \<and> ep_closing e = [] \<and>
     (ep_open e = [(l, a)] \<or> ctxDone (ep_conn e) \<and> ep_open e = []) \<and>
     (ep_pc e = HopWait \<or> ep_pc e = HopExited \<or> ep_pc e = HopListen (Some l) (Some l))"

lemma hop_finish_same: "hop_finish p p e = e\<lparr>ep_pc := HopWait\<rparr>"
  by (simp add: hop_finish_def option.case_eq_if)

lemma never_hops_step:
  assumes "ep_step cfg e e'" "\<not> ServerPrebindNextPortEnabled cfg" "never_hops l a e"
  shows "never_hops l a e' \<and> ep_names e' = ep_names e"
  using assms
proof (induction rule: ep_step.induct)
  case (tick e)
  then show ?case by (auto simp: never_hops_def hop_promote_def Let_def)
next
  case (listen e prevConn newCurrent now1 now2 os_ok e')
  then have "prevConn = Some l" "newCurrent = Some l" by (auto simp: never_hops_def)
  then show ?case using listen by (auto simp: never_hops_def hop_listen_def hop_finish_same)
next
  case (close e)
  then show ?case
    by (auto simp: never_hops_def Close_def close_sock_def set_conn_def Let_def split: option.splits prod.splits)
qed (auto simp: never_hops_def same_sockets_def set_conn_def)

lemma never_hops_reach:
  assumes "ep_reach cfg e0 e" "\<not> ServerPrebindNextPortEnabled cfg" "never_hops l a e0"
  shows "never_hops l a e \<and> ep_names e = ep_names e0"
  using assms by (induction rule: ep_reach.induct) (auto dest: never_hops_step)

section \<open>Closing\<close>

lemma open_close_sock:
  "distinct (open_socks e) \<Longrightarrow> open_socks (snd (close_sock l e)) = remove1 l (open_socks e)"
  by (auto simp: close_sock_def open_socks_def filter_map o_def case_prod_unfold
        simp flip: filter_neq_remove1 intro!: arg_cong [where f = "map fst"] filter_id_conv [THEN iffD2, symmetric])

lemma close_sock_keeps [simp]:
  "ep_conn (snd (close_sock l e)) = ep_conn e" "ep_closing (snd (close_sock l e)) = ep_closing e"
  "ep_pc (snd (close_sock l e)) = ep_pc e" "ep_fresh (snd (close_sock l e)) = ep_fresh e"
  "ep_names (snd (close_sock l e)) = ep_names e"
  by (simp_all add: close_sock_def)

lemma set_conn_simps [simp]:
  "ep_conn (set_conn f e) = f (ep_conn e)" "open_socks (set_conn f e) = open_socks e"
  "ep_closing (set_conn f e) = ep_closing e" "ep_pc (set_conn f e) = ep_pc e"
  "ep_open (set_conn f e) = ep_open e"
  by (simp_all add: set_conn_def open_socks_def)

text \<open>What \<open>Close\<close> does to a server's sockets.\<close>

lemma Close_server:
  assumes "isServer (ep_conn e)" "localConn (ep_conn e) = None" "currentConn (ep_conn e) = Some k"
    "distinct (open_socks e)"
  shows "open_socks (snd (Close e)) =
      (case nextConn (ep_conn e) of Some n \<Rightarrow> remove1 n (remove1 k (open_socks e))
       | None \<Rightarrow> remove1 k (open_socks e))"
    "ep_closing (snd (Close e)) = ep_closing e" "ep_pc (snd (Close e)) = ep_pc e"
    "ctxDone (ep_conn (snd (Close e)))"
    "currentConn (ep_conn (snd (Close e))) = currentConn (ep_conn e)"
    "fst (Close e) = None \<longleftrightarrow> k \<in> set (open_socks e)"
proof -
  let ?e = "set_conn (\<lambda>c. c\<lparr>ctxDone := True\<rparr>) e"
  have d: "distinct (open_socks (snd (close_sock k ?e)))"
    using assms(4) by (simp add: open_close_sock distinct_remove1)
  show "open_socks (snd (Close e)) =
      (case nextConn (ep_conn e) of Some n \<Rightarrow> remove1 n (remove1 k (open_socks e))
       | None \<Rightarrow> remove1 k (open_socks e))"
    using assms d by (simp add: Close_def Let_def case_prod_unfold open_close_sock split: option.split)
  show "fst (Close e) = None \<longleftrightarrow> k \<in> set (open_socks e)"
    using assms by (simp add: Close_def Let_def case_prod_unfold close_sock_def open_socks_def)
  show "ep_closing (snd (Close e)) = ep_closing e" "ep_pc (snd (Close e)) = ep_pc e"
    "ctxDone (ep_conn (snd (Close e)))" "currentConn (ep_conn (snd (Close e))) = currentConn (ep_conn e)"
    using assms by (simp_all add: Close_def Let_def case_prod_unfold split: option.split)
qed

text \<open>Closing while the loop waits leaves open only the sockets whose close timer already runs.\<close>

lemma Close_waiting:
  assumes "sockets_inv e" "ep_pc e = HopWait"
  shows "mset (open_socks (snd (Close e))) = mset (ep_closing e)" "fst (Close e) = None"
proof -
  obtain k where k: "currentConn (ep_conn e) = Some k" using assms(1) by (auto simp: sockets_inv_def)
  have inv: "mset (tracked e) = mset (open_socks e)" "distinct (open_socks e)"
    "isServer (ep_conn e)" "localConn (ep_conn e) = None"
    using assms(1) by (simp_all add: sockets_inv_def)
  note cl = Close_server [OF inv(3,4) k inv(2)]
  show "fst (Close e) = None" using cl(6) mset_eq_setD [OF inv(1)] k by (auto simp: tracked_def)
  show "mset (open_socks (snd (Close e))) = mset (ep_closing e)"
    using k assms(2) by (cases "nextConn (ep_conn e)") (simp_all add: cl(1) inv(1) [symmetric] tracked_def)
qed

section \<open>The steady state\<close>

text \<open>
  Two clock readings of one computation of the next address: the second is later, by at most
  a millisecond, and the next slot still fits the clock.
\<close>

definition readings_ok :: "config \<Rightarrow> gotime \<Rightarrow> gotime \<Rightarrow> bool" where
  "readings_ok cfg now1 now2 \<longleftrightarrow> time_ok now1 \<and> wall now1 \<le> wall now2 \<and>
     wall now2 \<le> wall now1 + 1000000 \<and> wall now2 + SlotDuration cfg + 1000000 < 2 ^ 62"

lemma next_hop_addr_slot:
  assumes cfg: "config_ok cfg" and now: "readings_ok cfg now1 now2"
  shows "next_hop_addr cfg now1 now2 = Ret (Some (slot_addr (slot_of cfg now2 + 1)))"
proof -
  define d where "d = (slot_ms cfg - (wall now2 div 1000000) mod slot_ms cfg) * 1000000"
  define e where "e = 1000000 - (wall now2 - wall now1)"
  note m = config_ok_slot_ms [OF cfg]
  have dur: "SlotDuration cfg = slot_ms cfg * 1000000" "0 \<le> SlotDuration cfg"
    using cfg m by (auto simp: config_ok_def slot_ms_def)
  have r: "0 \<le> (wall now2 div 1000000) mod slot_ms cfg"
      "(wall now2 div 1000000) mod slot_ms cfg < slot_ms cfg" using m by simp_all
  have d: "0 \<le> d" "d \<le> SlotDuration cfg" using r by (simp_all add: d_def dur)
  have "time_ok now2" using now m dur by (simp add: readings_ok_def time_ok_def)
  then have "GetNextHopDelay cfg now2 = Ret d"
    using GetNextHopDelay_slot m dur unfolding d_def by simp
  moreover have "wrap64 (d + 1000000) = d + 1000000"
    using d cfg by (intro wrap64_small) (auto simp: config_ok_def)
  moreover have "time_ok (time_add now1 (d + 1000000))"
    using d now by (simp add: readings_ok_def time_ok_def)
  then have "GetAddressByTime cfg (time_add now1 (d + 1000000))
    = Ret (Some (slot_addr (slot_of cfg (time_add now1 (d + 1000000)))))"
    using m dur by (intro GetAddressByTime_slot) simp_all
  moreover have "slot_of cfg (time_add now1 (d + 1000000)) = slot_of cfg (time_add now2 (d + e))"
    by (simp add: slot_of_def e_def ac_simps)
  moreover have "slot_of cfg (time_add now2 (d + e)) = slot_of cfg now2 + 1"
    unfolding d_def using m now by (intro slot_of_after_delay) (auto simp: e_def readings_ok_def)
  ultimately show ?thesis by (simp add: next_hop_addr_def)
qed

text \<open>
  In slot \<open>k\<close> a server is steady when it listens on the address of the slot, uses it to
  send, and has the address of the next slot bound.
\<close>

definition steady :: "int \<Rightarrow> endpoint \<Rightarrow> bool" where
  "steady k e \<longleftrightarrow> sockets_inv e \<and> ep_pc e = HopWait \<and>
     (\<exists>l m. currentConn (ep_conn e) = Some l \<and> nextConn (ep_conn e) = Some m \<and>
       (l, slot_addr k) \<in> set (ep_open e) \<and> (m, slot_addr (k + 1)) \<in> set (ep_open e))"

definition bound_addrs :: "endpoint \<Rightarrow> udp_addr list" where
  "bound_addrs e = map snd (ep_open e)"

lemma hop_cases:
  assumes "ep_pc (hop_promote e) = HopListen p n" "hop cfg now1 now2 os_ok e = Ret e'"
  shows "\<exists>e2. hop_listen cfg now1 now2 os_ok p n (hop_promote e) = Ret e2 \<and>
    (e' = e2 \<or> (\<exists>l. ep_pc e2 = HopStore p n l \<and> e' = hop_store p n l e2))"
proof -
  obtain e2 where l: "hop_listen cfg now1 now2 os_ok p n (hop_promote e) = Ret e2"
    and r: "(case ep_pc e2 of HopStore _ _ nextL \<Rightarrow> Ret (hop_store p n nextL e2) | _ \<Rightarrow> Ret e2) = Ret e'"
    using assms(2) unfolding hop_def Let_def assms(1) hop_pc.sel by (auto simp only: go_bind_eq_Ret)
  have "ep_pc e2 = HopWait \<or> (\<exists>l. ep_pc e2 = HopStore p n l)"
    using l by (auto simp: hop_listen_def listen_packet_def split: if_splits option.splits)
  then show ?thesis using l r by auto
qed

text \<open>A completed \<open>hop\<close> keeps the invariant.\<close>

lemma hop_inv:
  assumes "sockets_inv e" "ep_pc e = HopWait" "hop cfg now1 now2 os_ok e = Ret e'"
  shows "sockets_inv e'"
proof -
  obtain p n where pc: "ep_pc (hop_promote e) = HopListen p n"
    by (cases "nextConn (ep_conn e)") (simp_all add: hop_promote_def Let_def)
  have "sockets_inv (hop_promote e)" using inv_promote assms by simp
  then show ?thesis
    using hop_cases [OF pc assms(3)] inv_listen [OF _ pc] inv_store by blast
qed

lemma hop_steady:
  assumes st: "steady k e" and cfg: "config_ok cfg" "ServerPrebindNextPortEnabled cfg"
    and now: "readings_ok cfg now1 now2" "slot_of cfg now2 = k + 1"
    and free: "slot_addr (k + 2) \<notin> set (bound_addrs e)" and os: "os_ok"
  shows "\<exists>e' l. hop cfg now1 now2 os_ok e = Ret e' \<and> steady (k + 1) e' \<and>
    currentConn (ep_conn e) = Some l \<and> ep_closing e' = ep_closing e @ [l] \<and>
    bound_addrs e' = slot_addr (k + 2) # bound_addrs e"
proof -
  obtain l m where lm: "currentConn (ep_conn e) = Some l" "nextConn (ep_conn e) = Some m"
      "(l, slot_addr k) \<in> set (ep_open e)" "(m, slot_addr (k + 1)) \<in> set (ep_open e)"
    and inv: "sockets_inv e" "ep_pc e = HopWait" using st by (auto simp: steady_def)
  have "l \<noteq> m" using tracked_distinct [OF inv(1)] lm by (auto simp: tracked_def)
  have na: "next_hop_addr cfg now1 now2 = Ret (Some (slot_addr (k + 2)))"
    using next_hop_addr_slot [OF cfg(1) now(1)] now(2) by (simp add: add.commute)
  have "\<exists>e'. hop cfg now1 now2 os_ok e = Ret e' \<and> ep_pc e' = HopWait \<and>
      currentConn (ep_conn e') = Some m \<and> nextConn (ep_conn e') = Some (ep_fresh e) \<and>
      ep_open e' = (ep_fresh e, slot_addr (k + 2)) # ep_open e \<and> ep_closing e' = ep_closing e @ [l]"
    using lm \<open>l \<noteq> m\<close> na cfg free os
    by (simp add: hop_def hop_promote_def hop_listen_def listen_packet_def hop_store_def hop_finish_def
        start_pump_def set_conn_def bound_addrs_def Let_def)
  then obtain e' where e': "hop cfg now1 now2 os_ok e = Ret e'" "ep_pc e' = HopWait"
      "currentConn (ep_conn e') = Some m" "nextConn (ep_conn e') = Some (ep_fresh e)"
      "ep_open e' = (ep_fresh e, slot_addr (k + 2)) # ep_open e" "ep_closing e' = ep_closing e @ [l]"
    by blast
  moreover have "steady (k + 1) e'"
    using e' lm hop_inv [OF inv e'(1)] by (simp add: steady_def algebra_simps)
  ultimately show ?thesis using lm by (auto simp: bound_addrs_def)
qed

lemma NewServerConn_steady:
  assumes cfg: "config_ok cfg" "ServerPrebindNextPortEnabled cfg"
    and now: "readings_ok cfg now now2" "slot_of cfg now2 = slot_of cfg now"
    and e: "NewServerConn newSource cfg now0 now now2 ok1 ok2 = Ret (Inr e)"
    and n: "nextConn (ep_conn e) \<noteq> None"
  shows "steady (slot_of cfg now) e"
proof -
  have "GetAddressByTime cfg now = Ret (Some (slot_addr (slot_of cfg now)))"
    using cfg(1) config_ok_slot_ms [OF cfg(1)] now(1)
    by (intro GetAddressByTime_slot) (auto simp: readings_ok_def config_ok_def)
  then show ?thesis
    using NewServerConn_cases [OF e] NewServerConn_inv [OF e] n next_hop_addr_slot [OF cfg(1) now(1)] now(2)
    by (auto simp: steady_def)
qed

text \<open>
  When the bind of the next port failed, the following \<open>hop\<close> keeps the socket in use: the
  server stays on the address of the slot that is over.
\<close>

lemma hop_stale:
  assumes nx: "nextConn (ep_conn e) = None" and h: "hop cfg now1 now2 os_ok e = Ret e'"
  shows "currentConn (ep_conn e') = currentConn (ep_conn e)" "ep_closing e' = ep_closing e"
    "set (ep_open e) \<subseteq> set (ep_open e')"
proof -
  let ?c = "currentConn (ep_conn e)"
  have e1: "hop_promote e = e\<lparr>ep_pc := HopListen ?c ?c\<rparr>" using nx by (simp add: hop_promote_def Let_def)
  obtain e2 where l: "hop_listen cfg now1 now2 os_ok ?c ?c (e\<lparr>ep_pc := HopListen ?c ?c\<rparr>) = Ret e2"
    and e': "e' = e2 \<or> (\<exists>m. e' = hop_store ?c ?c m e2)"
    using hop_cases [OF _ h, of ?c ?c] e1 by auto
  have e2: "ep_conn e2 = ep_conn e" "ep_closing e2 = ep_closing e" "set (ep_open e) \<subseteq> set (ep_open e2)"
    using l by (auto simp: hop_listen_def listen_packet_def hop_finish_def
        split: if_splits option.splits)
  have st: "hop_store ?c ?c m e2 = e2\<lparr>ep_conn := (ep_conn e2)\<lparr>nextConn := Some m\<rparr>,
      ep_pumps := ep_pumps e2 @ [m], ep_pc := HopWait\<rparr>" for m
    by (simp add: hop_store_def hop_finish_def start_pump_def set_conn_def option.case_eq_if)
  show "currentConn (ep_conn e') = ?c" "ep_closing e' = ep_closing e" "set (ep_open e) \<subseteq> set (ep_open e')"
    using e' e2 by (auto simp: st)
qed

section \<open>A leak\<close>

text \<open>The timers close what they hold, whatever the loop does.\<close>

lemma drain_closing:
  "ep_reach cfg e0 e \<Longrightarrow> \<exists>e'. ep_reach cfg e0 e' \<and> ep_closing e' = [] \<and> ep_conn e' = ep_conn e \<and>
    ep_pc e' = ep_pc e \<and> set (ep_open e') = {x \<in> set (ep_open e). fst x \<notin> set (ep_closing e)}"
proof (induction "ep_closing e" arbitrary: e)
  case Nil
  then show ?case by (intro exI [of _ e]) auto
next
  case (Cons l ls)
  let ?e1 = "snd (close_sock l e)\<lparr>ep_closing := remove1 l (ep_closing e)\<rparr>"
  have "ep_step cfg e ?e1" by (rule ep_step.old_close) (simp flip: Cons.hyps(2))
  then have "ep_reach cfg e0 ?e1" using Cons.prems by (rule ep_reach.step [rotated])
  moreover have "ls = ep_closing ?e1" by (simp flip: Cons.hyps(2))
  ultimately obtain e' where e': "ep_reach cfg e0 e'" "ep_closing e' = []" "ep_conn e' = ep_conn e"
      "ep_pc e' = ep_pc e" "set (ep_open e') = {x \<in> set (ep_open ?e1). fst x \<notin> set (ep_closing ?e1)}"
    using Cons.hyps(1) [of ?e1] by auto
  moreover have "{x \<in> set (ep_open ?e1). fst x \<notin> set (ep_closing ?e1)} =
      {x \<in> set (ep_open e). fst x \<notin> set (ep_closing e)}"
    by (auto simp: close_sock_def image_iff simp flip: Cons.hyps(2))
  ultimately show ?case by auto
qed

lemma closing_hop_finish:
  "set (ep_closing (hop_finish p n e)) = set (pc_socks (HopListen p n)) \<union> set (ep_closing e)"
  by (cases p) (auto simp: hop_finish_def)

lemma closing_during_hop_leaks:
  assumes inv: "sockets_inv e" and pc: "ep_pc e = HopListen p n"
    and pre: "ServerPrebindNextPortEnabled cfg"
    and na: "next_hop_addr cfg now1 now2 = Ret (Some u)" and free: "u \<notin> set (bound_addrs e)"
  shows "\<exists>e'. ep_reach cfg e e' \<and> ctxDone (ep_conn e') \<and> ep_pc e' = HopExited \<and> ep_closing e' = [] \<and>
    set (ep_open e') = {(ep_fresh e, u)}"
proof -
  obtain k where k: "currentConn (ep_conn e) = Some k" using inv by (auto simp: sockets_inv_def)
  have nx: "nextConn (ep_conn e) = None" using inv pc by (auto simp: sockets_inv_def)
  have i: "isServer (ep_conn e)" "localConn (ep_conn e) = None" "distinct (open_socks e)"
    and m: "mset (tracked e) = mset (open_socks e)" using inv by (simp_all add: sockets_inv_def)
  define ec where "ec = snd (Close e)"
  note cl = Close_server [OF i(1,2) k i(3), folded ec_def, unfolded nx, simplified]
  have opn: "ep_open ec = filter (\<lambda>(j, _). j \<noteq> k) (ep_open e)" "ep_fresh ec = ep_fresh e"
      "ep_conn ec = (ep_conn e)\<lparr>ctxDone := True\<rparr>"
    using i k nx mset_eq_setD [OF m]
    by (auto simp: ec_def Close_def Let_def case_prod_unfold close_sock_def set_conn_def open_socks_def tracked_def)
  define el where "el = ec\<lparr>ep_open := (ep_fresh e, u) # ep_open ec, ep_names := (ep_fresh e, u) # ep_names ec,
    ep_fresh := Suc (ep_fresh e), ep_pc := HopStore p n (ep_fresh e)\<rparr>"
  have "hop_listen cfg now1 now2 True p n ec = Ret el"
    using pre na free opn
    by (auto simp: hop_listen_def listen_packet_def bound_addrs_def el_def)
  define es where "es = hop_store p n (ep_fresh e) el"
  have "ep_reach cfg e ec" unfolding ec_def by (rule ep_reach.step [OF ep_reach.start ep_step.close])
  moreover have "ep_step cfg ec el"
    using pc cl(3) by (intro ep_step.listen [OF _ \<open>hop_listen cfg now1 now2 True p n ec = Ret el\<close>]) simp
  moreover have "ep_step cfg el es" unfolding es_def by (rule ep_step.store) (simp add: el_def)
  moreover have "ep_step cfg es (es\<lparr>ep_pc := HopExited\<rparr>)"
    by (rule ep_step.loop_exit) (simp_all add: es_def hop_store_def set_conn_def start_pump_def el_def opn)
  ultimately have reach: "ep_reach cfg e (es\<lparr>ep_pc := HopExited\<rparr>)" by (blast intro: ep_reach.step)
  let ?f = "es\<lparr>ep_pc := HopExited\<rparr>"
  obtain e' where e': "ep_reach cfg e e'" "ep_closing e' = []" "ep_conn e' = ep_conn ?f"
      "ep_pc e' = ep_pc ?f" "set (ep_open e') = {x \<in> set (ep_open ?f). fst x \<notin> set (ep_closing ?f)}"
    using drain_closing [OF reach] by blast
  have cs: "set (ep_closing ?f) = set (pc_socks (ep_pc e) @ ep_closing e)"
    using pc cl(2) by (simp add: es_def hop_store_def start_pump_def set_conn_def el_def closing_hop_finish)
  have os: "ep_open ?f = (ep_fresh e, u) # ep_open ec"
    by (simp add: es_def hop_store_def start_pump_def set_conn_def el_def)
  have "fst x \<in> set (ep_closing ?f)" if "x \<in> set (ep_open ec)" for x
  proof -
    have "fst x \<in> set (tracked e)" "fst x \<noteq> k"
      using that opn mset_eq_setD [OF m] by (auto simp: open_socks_def)
    then show ?thesis unfolding cs using k nx by (auto simp: tracked_def)
  qed
  moreover have "ep_fresh e \<notin> set (ep_closing ?f)"
  proof
    assume "ep_fresh e \<in> set (ep_closing ?f)"
    then have "ep_fresh e \<in> set (open_socks e)"
      unfolding cs mset_eq_setD [OF m, symmetric] by (auto simp: tracked_def)
    then show False using inv by (auto simp: sockets_inv_def)
  qed
  ultimately have "set (ep_open e') = {(ep_fresh e, u)}" unfolding e'(5) os by auto
  moreover have "ctxDone (ep_conn e')"
    unfolding e'(3) by (simp add: es_def hop_store_def start_pump_def set_conn_def el_def opn)
  ultimately show ?thesis using e' by (intro exI [of _ e']) simp
qed

section \<open>After the loop has ended\<close>

text \<open>Once the loop has ended, every step keeps the open sockets among those whose timer runs.\<close>

definition only_closing :: "endpoint \<Rightarrow> bool" where
  "only_closing e \<longleftrightarrow> ep_pc e = HopExited \<and> set (open_socks e) \<subseteq> set (ep_closing e)"

lemma open_close_sock_subset: "set (open_socks (snd (close_sock l e))) \<subseteq> set (open_socks e) - {l}"
  by (auto simp: close_sock_def open_socks_def)

lemma open_Close_subset: "set (open_socks (snd (Close e))) \<subseteq> set (open_socks e)"
proof -
  have "set (open_socks (snd (close_sock l e'))) \<subseteq> set (open_socks e)" if "set (open_socks e') \<subseteq> set (open_socks e)" for l e'
    using that open_close_sock_subset by blast
  then show ?thesis by (auto simp: Close_def Let_def case_prod_unfold split: option.splits)
qed

lemma Close_keeps: "ep_closing (snd (Close e)) = ep_closing e" "ep_pc (snd (Close e)) = ep_pc e"
  by (simp_all add: Close_def Let_def case_prod_unfold split: option.split)

lemma only_closing_step: "ep_step cfg e e' \<Longrightarrow> only_closing e \<Longrightarrow> only_closing e'"
proof (induction rule: ep_step.induct)
  case (old_close l e)
  have "k \<in> set (remove1 l (ep_closing e))" if "k \<in> set (open_socks (snd (close_sock l e)))" for k
  proof -
    have "k \<noteq> l" "k \<in> set (ep_closing e)" using that open_close_sock_subset [of l e] old_close by (auto simp: only_closing_def)
    then show ?thesis by (simp add: in_set_remove1)
  qed
  then show ?case using old_close by (auto simp: only_closing_def open_socks_def)
next
  case (close e)
  then show ?case using open_Close_subset [of e] by (auto simp: only_closing_def Close_keeps)
qed (auto simp: only_closing_def open_socks_def set_conn_def)

lemma only_closing_reach: "ep_reach cfg e0 e \<Longrightarrow> only_closing e0 \<Longrightarrow> only_closing e"
  by (induction rule: ep_reach.induct) (auto dest: only_closing_step)

section \<open>Reaching the server\<close>

text \<open>A packet reaches an endpoint when it goes to an address a socket is bound to.\<close>

definition reaches :: "endpoint \<Rightarrow> write_result \<Rightarrow> bool" where
  "reaches e r \<longleftrightarrow> (\<exists>s \<in> set (wr_sends r). snd (snd s) \<in> Some ` set (bound_addrs e))"

text \<open>
  Prediction and arrival in whole milliseconds: late by at most a slot, early by less than
  the threshold of the double send. Then the predicted slot, or the one after it near its
  end, is one the server has bound.
\<close>

lemma predicted_slot:
  fixes m P T thr :: int
  assumes "0 < m" "P \<le> T + m" "T < P + thr" "thr \<le> m"
  shows "P div m = T div m \<or> P div m = T div m + 1 \<or> P div m = T div m - 1 \<and> m - P mod m < thr"
proof -
  define a b p t where "a = P div m" and "b = T div m" and "p = P mod m" and "t = T mod m"
  have P: "P = m * a + p" "p < m" "0 \<le> p" and T: "T = m * b + t" "t < m" "0 \<le> t"
    using assms(1) by (simp_all add: a_def b_def p_def t_def)
  have "m * a < m * b + m * 2" "m * b < m * a + m * 2" using P T assms by linarith+
  then have "m * a < m * (b + 2)" "m * b < m * (a + 2)" by (simp_all add: distrib_left)
  then have "a < b + 2" "b < a + 2" using assms(1) by (simp_all only: mult_less_cancel_left_pos)
  then consider "a = b" | "a = b + 1" | "a = b - 1" by linarith
  then show ?thesis
  proof cases
    case 3
    then have "b = a + 1" by simp
    then have "m * b = m * a + m" by (simp add: algebra_simps)
    then have "m - p < thr" using P T assms by linarith
    then show ?thesis using 3 by (simp add: a_def b_def p_def)
  qed (simp_all add: a_def b_def)
qed

lemma clientWrite_reaches:
  assumes cfg: "config_ok cfg" "ClientDoubleSendEdgeThresholdMs cfg \<le> slot_ms cfg"
    and l: "localConn c = Some l" and ok: "\<And>s. snd (sockWrite s) = None"
    and predicted: "time_ok (time_add now (latency c))" "time_ok (time_add now (latency c + SlotDuration cfg))"
    and window: "wall (time_add now (latency c)) div 1000000 \<le> wall t div 1000000 + slot_ms cfg"
      "wall t div 1000000 < wall (time_add now (latency c)) div 1000000 + ClientDoubleSendEdgeThresholdMs cfg"
    and st: "steady (slot_of cfg t) e"
  shows "\<exists>r. clientWrite cfg sockWrite now c p = Ret r \<and> wr_err r = None \<and> reaches e r"
proof -
  define arrival where "arrival = time_add now (latency c)"
  define k where "k = slot_of cfg arrival"
  obtain n err where w: "sockWrite (l, p, Some (slot_addr k)) = (n, err)"
    and r: "clientWrite cfg sockWrite now c p = Ret \<lparr>wr_n = n, wr_err = err,
      wr_sends = (if err = None \<and> ms_left cfg arrival < ClientDoubleSendEdgeThresholdMs cfg \<and>
          slot_addr (k + 1) \<noteq> slot_addr k
        then [(l, p, Some (slot_addr k)), (l, p, Some (slot_addr (k + 1)))]
        else [(l, p, Some (slot_addr k))])\<rparr>"
    using clientWrite_sends [OF cfg(1) predicted l, of sockWrite p] unfolding k_def arrival_def by blast
  have err: "err = None" using ok [of "(l, p, Some (slot_addr k))"] w by simp
  have bound: "slot_addr (slot_of cfg t) \<in> set (bound_addrs e)" "slot_addr (slot_of cfg t + 1) \<in> set (bound_addrs e)"
    using st by (force simp: steady_def bound_addrs_def)+
  have "k = slot_of cfg t \<or> k = slot_of cfg t + 1 \<or>
      k = slot_of cfg t - 1 \<and> ms_left cfg arrival < ClientDoubleSendEdgeThresholdMs cfg"
    unfolding k_def slot_of_def ms_left_def
    using predicted_slot [OF _ window cfg(2)] config_ok_slot_ms [OF cfg(1)] by (simp add: arrival_def)
  then show ?thesis using r err bound by (auto simp: reaches_def)
qed

section \<open>Running through the slots\<close>

text \<open>The close timers of the old sockets fire, one after the other.\<close>

definition fire_timer :: "endpoint \<Rightarrow> sock \<Rightarrow> endpoint" where
  "fire_timer e l = snd (close_sock l e)\<lparr>ep_closing := remove1 l (ep_closing e)\<rparr>"

definition fire_timers :: "endpoint \<Rightarrow> endpoint" where
  "fire_timers e = foldl fire_timer e (ep_closing e)"

text \<open>
  A run of \<open>serverHoppingLoop\<close>: in every slot one \<open>hop\<close> with its two clock readings, and the
  timers it started fire before the next.
\<close>

fun hop_rounds :: "config \<Rightarrow> (gotime \<times> gotime) list \<Rightarrow> endpoint \<Rightarrow> endpoint go" where
  "hop_rounds cfg [] e = Ret e"
| "hop_rounds cfg ((now1, now2) # ts) e =
     go_bind (hop cfg now1 now2 True e) (\<lambda>e'. hop_rounds cfg ts (fire_timers e'))"

lemma fire_timer_steady:
  assumes "steady k e" "l \<in> set (ep_closing e)"
  shows "steady k (fire_timer e l)" "ep_closing (fire_timer e l) = remove1 l (ep_closing e)"
proof -
  have inv: "sockets_inv e" using assms(1) by (simp add: steady_def)
  have "sockets_inv (fire_timer e l)" unfolding fire_timer_def by (rule inv_old_close [OF inv assms(2)])
  moreover have "currentConn (ep_conn e) \<noteq> Some l" "nextConn (ep_conn e) \<noteq> Some l"
    using tracked_distinct [OF inv] assms(2) by (auto simp: tracked_def)
  ultimately show "steady k (fire_timer e l)"
    using assms by (auto simp: steady_def fire_timer_def close_sock_def)
  show "ep_closing (fire_timer e l) = remove1 l (ep_closing e)" by (simp add: fire_timer_def)
qed

lemma fire_timers_steady: "steady k e \<Longrightarrow> steady k (fire_timers e) \<and> ep_closing (fire_timers e) = []"
proof -
  have "ep_closing e = ls \<Longrightarrow> steady k e \<Longrightarrow> steady k (foldl fire_timer e ls) \<and> ep_closing (foldl fire_timer e ls) = []" for ls
  proof (induction ls arbitrary: e)
    case (Cons l ls)
    then show ?case using fire_timer_steady [of k e l] by simp
  qed simp
  then show "steady k e \<Longrightarrow> ?thesis" by (simp add: fire_timers_def)
qed

lemma steady_bound:
  assumes "steady k e" "ep_closing e = []"
  shows "mset (bound_addrs e) = {#slot_addr k, slot_addr (k + 1)#}"
proof -
  obtain l m where lm: "currentConn (ep_conn e) = Some l" "nextConn (ep_conn e) = Some m"
      "(l, slot_addr k) \<in> set (ep_open e)" "(m, slot_addr (k + 1)) \<in> set (ep_open e)"
    and inv: "sockets_inv e" "ep_pc e = HopWait" using assms(1) by (auto simp: steady_def)
  have "mset (open_socks e) = {#l, m#}" "l \<noteq> m"
    using inv lm assms(2) tracked_distinct [OF inv(1)] by (auto simp: sockets_inv_def tracked_def)
  then have "size (mset (open_socks e)) = 2" by simp
  then have "length (ep_open e) = 2" by (simp add: open_socks_def)
  then obtain x y where "ep_open e = [x, y]" by (metis length_0_conv length_Suc_conv numeral_2_eq_2)
  then show ?thesis using lm \<open>l \<noteq> m\<close> by (auto simp: bound_addrs_def add_mset_commute)
qed

text \<open>Three slots in a row with three addresses.\<close>

definition slots_apart :: "int \<Rightarrow> bool" where
  "slots_apart k \<longleftrightarrow> slot_addr (k + 2) \<noteq> slot_addr k \<and> slot_addr (k + 2) \<noteq> slot_addr (k + 1)"

lemma hop_round:
  assumes "steady k e" "ep_closing e = []" "config_ok cfg" "ServerPrebindNextPortEnabled cfg"
    and "readings_ok cfg now1 now2" "slot_of cfg now2 = k + 1" "slots_apart k"
  shows "\<exists>e'. hop cfg now1 now2 True e = Ret e' \<and> steady (k + 1) (fire_timers e') \<and> ep_closing (fire_timers e') = []"
proof -
  have "set (bound_addrs e) = {slot_addr k, slot_addr (k + 1)}"
    using arg_cong [OF steady_bound [OF assms(1,2)], of set_mset] by simp
  then have "slot_addr (k + 2) \<notin> set (bound_addrs e)" using assms(7) by (simp add: slots_apart_def)
  from hop_steady [OF assms(1,3-6) this TrueI] obtain e' where
    "hop cfg now1 now2 True e = Ret e'" "steady (k + 1) e'" by blast
  then show ?thesis using fire_timers_steady by blast
qed

lemma hop_rounds_steady:
  assumes "config_ok cfg" "ServerPrebindNextPortEnabled cfg"
  shows "steady k e \<Longrightarrow> ep_closing e = [] \<Longrightarrow>
    (\<forall>i < length ts. readings_ok cfg (fst (ts ! i)) (snd (ts ! i)) \<and>
      slot_of cfg (snd (ts ! i)) = k + 1 + int i \<and> slots_apart (k + int i)) \<Longrightarrow>
    \<exists>e'. hop_rounds cfg ts e = Ret e' \<and> steady (k + int (length ts)) e' \<and> ep_closing e' = []"
proof (induction ts arbitrary: k e)
  case Nil
  then show ?case by simp
next
  case (Cons t ts)
  obtain now1 now2 where t: "t = (now1, now2)" by (cases t)
  have "readings_ok cfg now1 now2" "slot_of cfg now2 = k + 1" "slots_apart k"
    using Cons.prems(3) [rule_format, of 0] t by simp_all
  then obtain e' where e': "hop cfg now1 now2 True e = Ret e'" "steady (k + 1) (fire_timers e')"
      "ep_closing (fire_timers e') = []"
    using hop_round [OF Cons.prems(1,2) assms] by blast
  have "\<forall>i < length ts. readings_ok cfg (fst (ts ! i)) (snd (ts ! i)) \<and>
      slot_of cfg (snd (ts ! i)) = k + 1 + 1 + int i \<and> slots_apart (k + 1 + int i)"
  proof (intro allI impI)
    fix i assume "i < length ts"
    then show "readings_ok cfg (fst (ts ! i)) (snd (ts ! i)) \<and>
      slot_of cfg (snd (ts ! i)) = k + 1 + 1 + int i \<and> slots_apart (k + 1 + int i)"
      using Cons.prems(3) [rule_format, of "Suc i"] by (simp add: algebra_simps)
  qed
  then show ?case using Cons.IH [OF e'(2,3)] e'(1) t by (simp add: algebra_simps)
qed

section \<open>Properties\<close>

text \<open>A server in slot 1700000000 and its clock readings, for the witnesses.\<close>

lemma demo_slots:
  "slot_addr 1700000000 = UDPAddr [192, 168, 2, 181] 29372" "slot_addr 1700000001 = UDPAddr [192, 168, 2, 100] 37583"
  "slot_addr 1700000002 = UDPAddr [192, 168, 2, 19] 25794"
  by code_simp+

definition demo_time :: "int \<Rightarrow> gotime" where
  "demo_time ns = \<lparr>wall = 1700000000000000000 + ns, mono = ns\<rparr>"

lemma demo_time: "wall (demo_time ns) = 1700000000000000000 + ns" "mono (demo_time ns) = ns"
  by (simp_all add: demo_time_def)

lemma demo_readings:
  "0 \<le> ns \<Longrightarrow> ns < 10 ^ 18 \<Longrightarrow> readings_ok default_config (demo_time ns) (demo_time ns)"
  "slot_of default_config (demo_time ns) = 1700000000 + ns div 1000000000"
  "time_ok (demo_time ns) \<longleftrightarrow> - 1700000000000000000 \<le> ns \<and> ns < 2 ^ 62 - 1700000000000000000"
  by (auto simp: readings_ok_def time_ok_def demo_time default_config_def slot_of_def slot_ms_def div_mult2_eq [symmetric]
      zdiv_zmult2_eq [symmetric])

lemma demo_server_start:
  obtains e where "NewServerConn zero_source default_config (demo_time 0) (demo_time 0) (demo_time 0) True True = Ret (Inr e)"
    "sockets_inv e" "ep_pc e = HopWait" "steady 1700000000 e" "ep_closing e = []"
proof -
  have c: "1 \<le> slot_ms default_config" "0 \<le> SlotDuration default_config" "config_ok default_config"
      "ServerPrebindNextPortEnabled default_config"
    by (simp_all add: slot_ms_def default_config_def config_ok_def)
  have g: "GetAddressByTime default_config (demo_time 0) = Ret (Some (UDPAddr [192, 168, 2, 181] 29372))"
    using GetAddressByTime_slot [OF c(1) _ c(2), of "demo_time 0"] demo_slots(1) by (simp add: demo_readings)
  have n: "next_hop_addr default_config (demo_time 0) (demo_time 0) = Ret (Some (UDPAddr [192, 168, 2, 100] 37583))"
    using next_hop_addr_slot [OF c(3) demo_readings(1), of 0] demo_slots(2) by (simp add: demo_readings)
  obtain e where e: "NewServerConn zero_source default_config (demo_time 0) (demo_time 0) (demo_time 0) True True = Ret (Inr e)"
      "nextConn (ep_conn e) \<noteq> None" "ep_pc e = HopWait" "ep_closing e = []"
    using g n c(4) by (auto simp: NewServerConn_def listen_packet_def new_server_state_def start_pump_def set_conn_def Let_def)
  moreover have "steady 1700000000 e"
    using NewServerConn_steady [OF c(3,4) demo_readings(1) refl e(1,2)] by (simp add: demo_readings)
  ultimately show thesis using that NewServerConn_inv [OF e(1)] by blast
qed

text \<open>
  C4. As long as a server is not closed, whatever the interleaving of hops, timers, pumps and
  traffic since it was created, the open sockets are exactly the current one, the prebound
  one, those in the hands of a running \<open>hop\<close> and those whose close timer runs, each once, no
  two on one address, and there is a current one.
\<close>

theorem server_sockets_accounted:
  assumes "NewServerConn newSource cfg now0 now now2 ok1 ok2 = Ret (Inr e0)"
    and "ep_reach cfg e0 e" "\<not> ctxDone (ep_conn e)"
  shows "mset (map fst (ep_open e)) = mset (tracked e) \<and> distinct (map fst (ep_open e)) \<and>
    distinct (map snd (ep_open e)) \<and> (\<exists>l. currentConn (ep_conn e) = Some l \<and> l \<in> fst ` set (ep_open e))"
proof -
  have inv: "sockets_inv e" using reach_inv [OF assms(2) NewServerConn_inv [OF assms(1)] assms(3)] .
  then have m: "mset (tracked e) = mset (map fst (ep_open e))" by (simp add: sockets_inv_def open_socks_def)
  obtain l where l: "currentConn (ep_conn e) = Some l" using inv by (auto simp: sockets_inv_def)
  have "l \<in> fst ` set (ep_open e)" using mset_eq_setD [OF m] l by (auto simp: tracked_def)
  then show ?thesis using inv m l by (simp add: sockets_inv_def open_socks_def)
qed

theorem server_sockets_accounted_witness:
  "\<exists>e0. NewServerConn zero_source default_config (demo_time 0) (demo_time 0) (demo_time 0) True True = Ret (Inr e0) \<and>
    mset (map fst (ep_open (hop_promote e0))) = mset (tracked (hop_promote e0))"
proof -
  obtain e0 where e0: "NewServerConn zero_source default_config (demo_time 0) (demo_time 0) (demo_time 0) True True = Ret (Inr e0)"
      "sockets_inv e0" "ep_pc e0 = HopWait" by (rule demo_server_start)
  have "ep_reach default_config e0 (hop_promote e0)"
    using ep_step.tick [OF e0(3)] by (rule ep_reach.step [OF ep_reach.start])
  moreover have "\<not> ctxDone (ep_conn (hop_promote e0))"
    using inv_promote [OF e0(2,3)] by (simp add: sockets_inv_def)
  ultimately show ?thesis using server_sockets_accounted [OF e0(1)] e0(1) by blast
qed

text \<open>
  C3. The server follows the slots: created with its next port bound, and hopping once in
  every following slot while binds succeed and addresses three slots apart differ, it
  listens after the \<open>n\<close>-th hop on exactly two addresses, that of the current slot, from which
  it sends, and that of the next.
\<close>

theorem server_follows_slots:
  assumes "config_ok cfg" "ServerPrebindNextPortEnabled cfg"
    and "NewServerConn newSource cfg now0 now now2 ok1 ok2 = Ret (Inr e0)" "nextConn (ep_conn e0) \<noteq> None"
    and "readings_ok cfg now now2" "slot_of cfg now = k" "slot_of cfg now2 = k"
    and "\<forall>i < length ts. readings_ok cfg (fst (ts ! i)) (snd (ts ! i)) \<and>
      slot_of cfg (snd (ts ! i)) = k + 1 + int i \<and> slots_apart (k + int i)"
  shows "\<exists>e. hop_rounds cfg ts e0 = Ret e \<and> steady (k + int (length ts)) e \<and>
    mset (bound_addrs e) = {#slot_addr (k + int (length ts)), slot_addr (k + int (length ts) + 1)#}"
proof -
  have "steady k e0" using NewServerConn_steady [OF assms(1,2,5) _ assms(3,4)] assms(6,7) by simp
  moreover have "ep_closing e0 = []" using NewServerConn_cases [OF assms(3)] by auto
  ultimately show ?thesis using hop_rounds_steady [OF assms(1,2) _ _ assms(8)] steady_bound by blast
qed

theorem server_follows_slots_witness:
  "\<exists>e0 e. NewServerConn zero_source default_config (demo_time 0) (demo_time 0) (demo_time 0) True True = Ret (Inr e0) \<and>
    hop_rounds default_config [(demo_time 1000000000, demo_time 1000000000)] e0 = Ret e \<and> steady 1700000001 e"
proof -
  obtain e0 where e0: "NewServerConn zero_source default_config (demo_time 0) (demo_time 0) (demo_time 0) True True = Ret (Inr e0)"
      "sockets_inv e0" "ep_pc e0 = HopWait" "steady 1700000000 e0" by (rule demo_server_start)
  moreover have "slots_apart 1700000000" using demo_slots by (simp add: slots_apart_def)
  moreover have "nextConn (ep_conn e0) \<noteq> None" using e0(4) by (auto simp: steady_def)
  moreover have "\<exists>e. hop_rounds default_config [(demo_time 1000000000, demo_time 1000000000)] e0 = Ret e \<and>
    steady (1700000000 + int (length [(demo_time 1000000000, demo_time 1000000000)])) e \<and>
    mset (bound_addrs e) = {#slot_addr (1700000000 + int (length [(demo_time 1000000000, demo_time 1000000000)])),
      slot_addr (1700000000 + int (length [(demo_time 1000000000, demo_time 1000000000)]) + 1)#}"
    using calculation
    by (intro server_follows_slots [OF config_ok_default(1) _ e0(1)] demo_readings(1))
      (simp_all add: demo_readings, simp_all add: default_config_def)
  ultimately show ?thesis by auto
qed

text \<open>
  C14. A packet of the client reaches a server that is steady in the slot of its arrival,
  if the predicted arrival is at most a slot late and less than the double-send threshold
  early (in whole milliseconds): one of the sends goes to an address the server has bound.
\<close>

theorem client_send_reaches_server:
  assumes "config_ok cfg" "ClientDoubleSendEdgeThresholdMs cfg \<le> slot_ms cfg"
    and "localConn c = Some l" "\<And>s. snd (sockWrite s) = None"
    and "time_ok (time_add now (latency c))" "time_ok (time_add now (latency c + SlotDuration cfg))"
    and "wall (time_add now (latency c)) div 1000000 \<le> wall t div 1000000 + slot_ms cfg"
    and "wall t div 1000000 < wall (time_add now (latency c)) div 1000000 + ClientDoubleSendEdgeThresholdMs cfg"
    and "steady (slot_of cfg t) e"
  shows "\<exists>r. clientWrite cfg sockWrite now c p = Ret r \<and> wr_err r = None \<and> reaches e r"
  by (rule clientWrite_reaches [OF assms])

theorem client_send_reaches_server_witness:
  "\<exists>e0 r. NewServerConn zero_source default_config (demo_time 0) (demo_time 0) (demo_time 0) True True = Ret (Inr e0) \<and>
    clientWrite default_config (\<lambda>s. (20, None)) (demo_time (- 25000000)) demo_client demo_packet = Ret r \<and> reaches e0 r"
proof -
  obtain e0 where e0: "NewServerConn zero_source default_config (demo_time 0) (demo_time 0) (demo_time 0) True True = Ret (Inr e0)"
      "sockets_inv e0" "ep_pc e0 = HopWait" "steady 1700000000 e0" by (rule demo_server_start)
  have "\<exists>r. clientWrite default_config (\<lambda>s. (20, None)) (demo_time (- 25000000)) demo_client demo_packet = Ret r \<and>
      wr_err r = None \<and> reaches e0 r"
    using e0(4) demo_client(3,7)
    by (intro client_send_reaches_server [where t = "demo_time 0" and l = 0])
      (simp_all add: config_ok_default demo_readings time_ok_def demo_time, simp_all add: default_config_def)
  then show ?thesis using e0(1) by blast
qed

text \<open>
  C15. Closing a server whose hopping loop waits releases everything: \<open>Close\<close> reports no error
  and closes at once every socket but those whose close timer already runs. When the
  loop then sees the end of its context, nothing that still happens (timers, pumps,
  traffic, another \<open>Close\<close>) leaves any other socket open, so none is open when the timers
  have fired. (If its timer is due at that moment, the \<open>select\<close> of the loop may instead hop
  once more; that is the leak of the next property.)
\<close>

theorem Close_releases_sockets:
  assumes "NewServerConn newSource cfg now0 now now2 ok1 ok2 = Ret (Inr e0)"
    and "ep_reach cfg e0 e" "\<not> ctxDone (ep_conn e)" "ep_pc e = HopWait"
  shows "fst (Close e) = None \<and> ctxDone (ep_conn (snd (Close e))) \<and>
    mset (map fst (ep_open (snd (Close e)))) = mset (ep_closing e) \<and>
    ep_step cfg (snd (Close e)) ((snd (Close e))\<lparr>ep_pc := HopExited\<rparr>) \<and>
    (\<forall>e'. ep_reach cfg ((snd (Close e))\<lparr>ep_pc := HopExited\<rparr>) e' \<longrightarrow>
      set (map fst (ep_open e')) \<subseteq> set (ep_closing e')) \<and>
    (\<exists>e'. ep_reach cfg ((snd (Close e))\<lparr>ep_pc := HopExited\<rparr>) e' \<and> ep_open e' = [] \<and> ep_closing e' = [])"
proof -
  have inv: "sockets_inv e" using reach_inv [OF assms(2) NewServerConn_inv [OF assms(1)] assms(3)] .
  let ?e = "(snd (Close e))\<lparr>ep_pc := HopExited\<rparr>"
  note cl = Close_waiting [OF inv assms(4)]
  have ctx: "ctxDone (ep_conn (snd (Close e)))" by (rule ctxDone_Close)
  have only: "only_closing ?e"
    using mset_eq_setD [OF cl(1)] by (simp add: only_closing_def open_socks_def Close_keeps)
  obtain e' where e': "ep_reach cfg ?e e'" "ep_closing e' = []" using drain_closing [OF ep_reach.start] by blast
  then have "ep_open e' = []" using only_closing_reach [OF e'(1) only] by (simp add: only_closing_def open_socks_def)
  moreover have "ep_step cfg (snd (Close e)) ?e" using ctx assms(4) by (intro ep_step.loop_exit) (simp_all add: Close_keeps)
  moreover have "set (map fst (ep_open x)) \<subseteq> set (ep_closing x)" if "ep_reach cfg ?e x" for x
    using only_closing_reach [OF that only] by (simp add: only_closing_def open_socks_def)
  ultimately show ?thesis using cl ctx e' by (auto simp: open_socks_def)
qed

text \<open>
  C16. Closing a server in the middle of \<open>hop\<close>, after the promotion and before the next port is
  bound, leaks a socket: the loop binds and stores the next port after \<open>Close\<close> is through, ends,
  all timers fire, and one socket stays open that nothing will close.
\<close>

theorem Close_during_hop_leaks:
  assumes "NewServerConn newSource cfg now0 now now2 ok1 ok2 = Ret (Inr e0)"
    and "ep_reach cfg e0 e" "\<not> ctxDone (ep_conn e)" "ep_pc e = HopListen p n"
    and "ServerPrebindNextPortEnabled cfg"
    and "next_hop_addr cfg now3 now4 = Ret (Some u)" "u \<notin> set (bound_addrs e)"
  shows "\<exists>e'. ep_reach cfg e e' \<and> ctxDone (ep_conn e') \<and> ep_pc e' = HopExited \<and> ep_closing e' = [] \<and>
    set (ep_open e') = {(ep_fresh e, u)}"
  using closing_during_hop_leaks [OF reach_inv [OF assms(2) NewServerConn_inv [OF assms(1)] assms(3)] assms(4-7)] .

theorem Close_releases_sockets_witness:
  "\<exists>e0 e. NewServerConn zero_source default_config (demo_time 0) (demo_time 0) (demo_time 0) True True = Ret (Inr e0) \<and>
    length (ep_open e0) = 2 \<and> ep_open (snd (Close e0)) = [] \<and>
    ep_reach default_config ((snd (Close e0))\<lparr>ep_pc := HopExited\<rparr>) e \<and> ep_open e = []"
proof -
  obtain e0 where e0: "NewServerConn zero_source default_config (demo_time 0) (demo_time 0) (demo_time 0) True True = Ret (Inr e0)"
      "sockets_inv e0" "ep_pc e0 = HopWait" "steady 1700000000 e0" "ep_closing e0 = []" by (rule demo_server_start)
  have "\<not> ctxDone (ep_conn e0)" using e0(2) by (simp add: sockets_inv_def)
  note c = Close_releases_sockets [OF e0(1) ep_reach.start this e0(3)]
  have "size (mset (bound_addrs e0)) = 2" using steady_bound [OF e0(4,5)] by simp
  then have "length (ep_open e0) = 2" by (simp add: bound_addrs_def)
  moreover have "ep_open (snd (Close e0)) = []" using c e0(5) by simp
  ultimately show ?thesis using c e0(1) by blast
qed

theorem Close_during_hop_leaks_witness:
  "\<exists>e0 e l. NewServerConn zero_source default_config (demo_time 0) (demo_time 0) (demo_time 0) True True = Ret (Inr e0) \<and>
    ep_reach default_config (hop_promote e0) e \<and> ep_pc e = HopExited \<and> set (ep_open e) = {(l, UDPAddr [192, 168, 2, 19] 25794)}"
proof -
  obtain e0 where e0: "NewServerConn zero_source default_config (demo_time 0) (demo_time 0) (demo_time 0) True True = Ret (Inr e0)"
      "sockets_inv e0" "ep_pc e0 = HopWait" "steady 1700000000 e0" "ep_closing e0 = []" by (rule demo_server_start)
  let ?e = "hop_promote e0"
  have r: "ep_reach default_config e0 ?e" using ep_step.tick [OF e0(3)] by (rule ep_reach.step [OF ep_reach.start])
  have i: "\<not> ctxDone (ep_conn ?e)" using inv_promote [OF e0(2,3)] by (simp add: sockets_inv_def)
  obtain p n where pc: "ep_pc ?e = HopListen p n" "ep_open ?e = ep_open e0"
    by (cases "nextConn (ep_conn e0)") (simp_all add: hop_promote_def Let_def)
  have na: "next_hop_addr default_config (demo_time 1000000000) (demo_time 1000000000) = Ret (Some (UDPAddr [192, 168, 2, 19] 25794))"
    using next_hop_addr_slot [OF config_ok_default(1) demo_readings(1), of 1000000000] demo_slots(3) by (simp add: demo_readings)
  have "set (bound_addrs e0) = {slot_addr 1700000000, slot_addr 1700000001}"
    using arg_cong [OF steady_bound [OF e0(4,5)], of set_mset] by simp
  then have "UDPAddr [192, 168, 2, 19] 25794 \<notin> set (bound_addrs ?e)"
    using pc(2) by (simp add: demo_slots bound_addrs_def)
  then show ?thesis
    using Close_during_hop_leaks [OF e0(1) r i pc(1) _ na] e0(1) by (auto simp: default_config_def)
qed

text \<open>
  C17. With prebinding switched off (the flag \<open>-pre\<close>) the server never hops: whatever
  happens after its creation, it makes no further socket, keeps sending from its first one,
  starts no close timer, and until it is closed listens on exactly one address, the one of
  the slot in which it was created.
\<close>

theorem no_prebind_never_hops:
  assumes "NewServerConn newSource cfg now0 now now2 ok1 ok2 = Ret (Inr e0)"
    and "\<not> ServerPrebindNextPortEnabled cfg" "ep_reach cfg e0 e"
  shows "LocalAddr e = LocalAddr e0 \<and> ep_names e = ep_names e0 \<and>
    currentConn (ep_conn e) = currentConn (ep_conn e0) \<and> ep_closing e = [] \<and>
    (\<exists>a. GetAddressByTime cfg now = Ret (Some a) \<and> LocalAddr e0 = Some a \<and>
      set (bound_addrs e) \<subseteq> {a} \<and> (\<not> ctxDone (ep_conn e) \<longrightarrow> bound_addrs e = [a]))"
proof -
  obtain a where a: "GetAddressByTime cfg now = Ret (Some a)" "map_of (ep_names e0) 0 = Some a"
      "never_hops 0 a e0"
    using NewServerConn_cases [OF assms(1)] assms(2) by (auto simp: never_hops_def)
  have "never_hops 0 a e" "ep_names e = ep_names e0" using never_hops_reach [OF assms(3,2) a(3)] by simp_all
  then show ?thesis using a by (auto simp: LocalAddr_def never_hops_def Let_def bound_addrs_def)
qed

text \<open>
  C18. When the next port could not be bound, the following \<open>hop\<close> keeps the old socket: the
  server goes through the next slot sending from the address of the slot that is over and
  not listening on the slot's own address at all.
\<close>

theorem failed_prebind_misses_slot:
  assumes "config_ok cfg" "readings_ok cfg now1 now2" "slot_of cfg now2 = k + 1"
    and "nextConn (ep_conn e) = None" "slot_addr (k + 1) \<notin> set (bound_addrs e)"
    and "slot_addr (k + 2) \<noteq> slot_addr (k + 1)"
  shows "\<exists>e'. hop cfg now1 now2 os_ok e = Ret e' \<and> currentConn (ep_conn e') = currentConn (ep_conn e) \<and>
    slot_addr (k + 1) \<notin> set (bound_addrs e')"
proof -
  have na: "next_hop_addr cfg now1 now2 = Ret (Some (slot_addr (k + 2)))"
    using next_hop_addr_slot [OF assms(1,2)] assms(3) by (simp add: add.commute)
  let ?c = "currentConn (ep_conn e)"
  have p: "hop_promote e = e\<lparr>ep_pc := HopListen ?c ?c\<rparr>" using assms(4) by (simp add: hop_promote_def Let_def)
  have "\<exists>e2. hop_listen cfg now1 now2 os_ok ?c ?c (hop_promote e) = Ret e2"
    by (cases "ServerPrebindNextPortEnabled cfg") (simp_all add: hop_listen_def listen_packet_def na)
  then obtain e2 where l: "hop_listen cfg now1 now2 os_ok ?c ?c (hop_promote e) = Ret e2" by blast
  then obtain e' where e': "hop cfg now1 now2 os_ok e = Ret e'"
    using p by (cases "ep_pc e2") (simp_all add: hop_def Let_def)
  have "set (bound_addrs e2) \<subseteq> insert (slot_addr (k + 2)) (set (bound_addrs e))"
    using l na p by (auto simp: hop_listen_def listen_packet_def bound_addrs_def split: if_splits)
  moreover have "bound_addrs e' = bound_addrs e2"
    using hop_cases [OF _ e', of ?c ?c] p l
    by (auto simp: bound_addrs_def hop_store_def set_conn_def start_pump_def)
  ultimately show ?thesis using e' hop_stale(1) [OF assms(4) e'] assms(5,6) by auto
qed

text \<open>Two servers for the witnesses: one without prebinding, one whose first prebinding fails.\<close>

lemma demo_first_bind:
  "GetAddressByTime (default_config\<lparr>ServerPrebindNextPortEnabled := pre\<rparr>) (demo_time 0) = Ret (Some (UDPAddr [192, 168, 2, 181] 29372))"
  "GetAddressByTime default_config (demo_time 0) = Ret (Some (UDPAddr [192, 168, 2, 181] 29372))"
proof -
  show *: "GetAddressByTime default_config (demo_time 0) = Ret (Some (UDPAddr [192, 168, 2, 181] 29372))"
    using GetAddressByTime_slot [of default_config "demo_time 0"] config_ok_1 [OF config_ok_default(1)] demo_slots(1)
    by (simp add: demo_readings)
  have "GetAddressByTime (default_config\<lparr>ServerPrebindNextPortEnabled := pre\<rparr>) = GetAddressByTime default_config"
    by (simp add: GetAddressByTime_def fun_eq_iff)
  then show "GetAddressByTime (default_config\<lparr>ServerPrebindNextPortEnabled := pre\<rparr>) (demo_time 0) = Ret (Some (UDPAddr [192, 168, 2, 181] 29372))"
    using * by simp
qed

theorem no_prebind_never_hops_witness:
  "\<exists>e0 e. NewServerConn zero_source (default_config\<lparr>ServerPrebindNextPortEnabled := False\<rparr>)
      (demo_time 0) (demo_time 0) (demo_time 0) True True = Ret (Inr e0) \<and>
    hop (default_config\<lparr>ServerPrebindNextPortEnabled := False\<rparr>) (demo_time 1000000000) (demo_time 1000000000) True e0 = Ret e \<and>
    bound_addrs e = [UDPAddr [192, 168, 2, 181] 29372]"
proof -
  let ?cfg = "default_config\<lparr>ServerPrebindNextPortEnabled := False\<rparr>" and ?t = "demo_time 1000000000"
  obtain e0 where e0: "NewServerConn zero_source ?cfg (demo_time 0) (demo_time 0) (demo_time 0) True True = Ret (Inr e0)"
      "ep_pc e0 = HopWait" "nextConn (ep_conn e0) = None" "\<not> ctxDone (ep_conn e0)"
    by (simp add: NewServerConn_def demo_first_bind listen_packet_def new_server_state_def start_pump_def set_conn_def Let_def)
  let ?c = "currentConn (ep_conn e0)"
  have p: "ep_pc (hop_promote e0) = HopListen ?c ?c" "ep_conn (hop_promote e0) = ep_conn e0"
    using e0(3) by (simp_all add: hop_promote_def Let_def)
  let ?e = "hop_finish ?c ?c (hop_promote e0)"
  have l: "hop_listen ?cfg ?t ?t True ?c ?c (hop_promote e0) = Ret ?e" by (simp add: hop_listen_def)
  have "ep_reach ?cfg e0 ?e"
    using ep_step.tick [OF e0(2)] ep_step.listen [OF p(1) l] by (blast intro: ep_reach.intros)
  then have "bound_addrs ?e = [UDPAddr [192, 168, 2, 181] 29372]"
    using no_prebind_never_hops [OF e0(1), of ?e] e0(4) p(2) by (auto simp: demo_first_bind)
  moreover have "hop ?cfg ?t ?t True e0 = Ret ?e" using p l by (simp add: hop_def Let_def)
  ultimately show ?thesis using e0(1) by blast
qed

theorem failed_prebind_misses_slot_witness:
  "\<exists>e0 e. NewServerConn zero_source default_config (demo_time 0) (demo_time 0) (demo_time 0) True False = Ret (Inr e0) \<and>
    hop default_config (demo_time 1000000000) (demo_time 1000000000) True e0 = Ret e \<and>
    slot_addr 1700000001 \<notin> set (bound_addrs e)"
proof -
  have n: "next_hop_addr default_config (demo_time 0) (demo_time 0) = Ret (Some (UDPAddr [192, 168, 2, 100] 37583))"
    using next_hop_addr_slot [OF config_ok_default(1) demo_readings(1), of 0] demo_slots(2) by (simp add: demo_readings)
  obtain e0 where e0: "NewServerConn zero_source default_config (demo_time 0) (demo_time 0) (demo_time 0) True False = Ret (Inr e0)"
      "nextConn (ep_conn e0) = None" "bound_addrs e0 = [UDPAddr [192, 168, 2, 181] 29372]"
    by (simp add: NewServerConn_def demo_first_bind n listen_packet_def new_server_state_def start_pump_def
        set_conn_def bound_addrs_def Let_def)
  have "\<exists>e. hop default_config (demo_time 1000000000) (demo_time 1000000000) True e0 = Ret e \<and>
    currentConn (ep_conn e) = currentConn (ep_conn e0) \<and> slot_addr (1700000000 + 1) \<notin> set (bound_addrs e)"
    by (rule failed_prebind_misses_slot [OF config_ok_default(1) demo_readings(1)])
      (simp_all add: demo_readings e0 demo_slots)
  then show ?thesis using e0(1) by auto
qed

end
