(* ===== verification/Calibration.thy ===== *)
theory Calibration
  imports Conn_Correct
begin

unbundle bit_operations_syntax

text \<open>
  \<open>pkg/magic/calibration.go\<close>, the measurement of the clock difference and the one-way delay
  between client and server, and \<open>StartPeriodicCalibration\<close> of \<open>pkg/magic/conn.go\<close>. Clock
  readings and the network's answers are arguments.
\<close>

section \<open>The server\<close>

text \<open>
  One round of \<open>StartCalibrationServer\<close>: a read error is logged, a packet is answered with
  eight bytes, zero when it holds the server's own clock reading.
\<close>

definition calibration_reply :: "gotime \<Rightarrow> bytes \<Rightarrow> bytes go" where
  "calibration_reply now data =
     (let nowNs = UnixNano now
      in go_bind (if 8 \<le> length data
                  then go_bind (get_be64 (take 8 data)) (\<lambda>w. Ret (i64_of_u64 w)) else Ret (- 1))
         (\<lambda>clientTsNs. Ret (put_be64 (if clientTsNs = nowNs then 0 else u64_of_i64 nowNs))))"

text \<open>The server's buffer holds 1024 bytes, which cuts a longer datagram.\<close>

fun calibration_server_step :: "gotime \<Rightarrow> read_event \<Rightarrow> (bytes \<times> udp_addr option) list go" where
  "calibration_server_step now (ReadErr e) = Ret []"
| "calibration_server_step now (ReadOk data a) =
     go_bind (calibration_reply now (take 1024 data)) (\<lambda>out. Ret [(out, a)])"

section \<open>The client\<close>

text \<open>
  The clock readings of one \<open>sendAndRecv\<close> and of the prediction that follows it, whether
  the write succeeds, and the datagram that is read, if any, for the payload sent.
\<close>

record probe =
  pb_stamp :: gotime
  pb_send :: gotime
  pb_write_ok :: bool
  pb_answer :: "bytes \<Rightarrow> bytes option"
  pb_recv :: gotime
  pb_next :: gotime

definition sendAndRecv :: "probe \<Rightarrow> int \<Rightarrow> (int \<times> duration \<times> gotime) option go" where
  "sendAndRecv pb predictedServerNs =
     (let toSendNs = (if predictedServerNs < 0 then UnixNano (pb_stamp pb) else predictedServerNs);
          payload = put_be64 (u64_of_i64 toSendNs); tSend = pb_send pb
      in if \<not> pb_write_ok pb then Ret None
         else (case pb_answer pb payload of
             None \<Rightarrow> Ret None
           | Some d \<Rightarrow>
               go_bind (get_be64 (go_copy payload d)) (\<lambda>w.
                 Ret (Some (i64_of_u64 w, time_sub (pb_recv pb) tSend, tSend)))))"

record sync_state =
  predictedServerNs :: int
  lastDelta :: duration
  lastRtt :: duration
  sumDelta :: duration
  sumRtt :: duration
  sync_count :: int

definition init_sync :: sync_state where
  "init_sync = \<lparr>predictedServerNs = - 1, lastDelta = 0, lastRtt = 0, sumDelta = 0, sumRtt = 0, sync_count = 0\<rparr>"

definition last_estimate :: "sync_state \<Rightarrow> duration" where
  "last_estimate s = wrap64 (lastDelta s + lastRtt s sdiv 2)"

text \<open>The bookkeeping of a measurement that was not aligned.\<close>

definition record_probe :: "probe \<Rightarrow> int \<Rightarrow> duration \<Rightarrow> gotime \<Rightarrow> sync_state \<Rightarrow> sync_state" where
  "record_probe pb srvNs rtt tSend s =
     (let delta = wrap64 (srvNs - wrap64 (UnixNano tSend + rtt sdiv 2))
      in s\<lparr>lastDelta := delta, lastRtt := rtt, sumDelta := wrap64 (sumDelta s + delta),
           sumRtt := wrap64 (sumRtt s + rtt), sync_count := sync_count s + 1,
           predictedServerNs := wrap64 (wrap64 (UnixNano (pb_next pb) + delta) + rtt sdiv 2)\<rparr>)"

definition sync_average :: "sync_state \<Rightarrow> duration go" where
  "sync_average s =
     (if 0 < sync_count s
      then go_bind (go_div (sumDelta s) (sync_count s)) (\<lambda>avgDelta.
             go_bind (go_div (sumRtt s) (sync_count s)) (\<lambda>avgRtt.
               Ret (wrap64 (avgDelta + avgRtt sdiv 2))))
      else Ret (10 * Millisecond))"

definition maxAttempts :: nat where "maxAttempts = 3"

text \<open>The loop from attempt \<open>i\<close>, with \<open>rounds\<close> attempts left.\<close>

fun sync_loop :: "(nat \<Rightarrow> probe) \<Rightarrow> nat \<Rightarrow> nat \<Rightarrow> sync_state \<Rightarrow> duration go" where
  "sync_loop pbs 0 i s = sync_average s"
| "sync_loop pbs (Suc rounds) i s =
     go_bind (sendAndRecv (pbs i) (predictedServerNs s)) (\<lambda>res.
       case res of
         None \<Rightarrow> if 0 < sync_count s then Ret (last_estimate s) else Ret (10 * Millisecond)
       | Some (srvNs, rtt, tSend) \<Rightarrow>
           if srvNs = 0 then if i = 0 then Ret 0 else Ret (last_estimate s)
           else sync_loop pbs rounds (Suc i) (record_probe (pbs i) srvNs rtt tSend s))"

definition SyncWithServer :: "(udp_addr option \<Rightarrow> bool) \<Rightarrow> (nat \<Rightarrow> probe) \<Rightarrow> string \<Rightarrow> duration go" where
  "SyncWithServer dial_ok pbs ip =
     (if dial_ok (resolveUDPAddr (ip @ '':9999'')) then sync_loop pbs maxAttempts 0 init_sync else Ret 0)"

section \<open>Periodic calibration\<close>

text \<open>
  The goroutine of \<open>StartPeriodicCalibration\<close> with its interval, and the effect of its
  events: a tick with what \<open>SyncWithServer\<close> returned, or the end of the context.
\<close>

definition calibration_interval :: "MagicConn \<Rightarrow> duration \<Rightarrow> duration option" where
  "calibration_interval c interval =
     (if isServer c then None else Some (if interval \<le> 0 then Minute else interval))"

datatype cal_event = CalTick duration | CalDone

fun calibration_loop :: "cal_event list \<Rightarrow> MagicConn \<Rightarrow> MagicConn" where
  "calibration_loop [] c = c"
| "calibration_loop (CalTick newLat # es) c = calibration_loop es (c\<lparr>latency := newLat\<rparr>)"
| "calibration_loop (CalDone # es) c = c"

definition StartPeriodicCalibration :: "duration \<Rightarrow> cal_event list \<Rightarrow> MagicConn \<Rightarrow> MagicConn" where
  "StartPeriodicCalibration interval es c =
     (case calibration_interval c interval of None \<Rightarrow> c | Some _ \<Rightarrow> calibration_loop es c)"

section \<open>Correctness\<close>

lemma calibration_reply_eq:
  "length data = 8 \<Longrightarrow> get_be64 data = Ret w \<Longrightarrow>
    calibration_reply now data =
      Ret (put_be64 (if i64_of_u64 w = UnixNano now then 0 else u64_of_i64 (UnixNano now)))"
  by (simp add: calibration_reply_def Let_def)

lemma calibration_reply_short:
  "length data < 8 \<Longrightarrow> 0 \<le> UnixNano now \<Longrightarrow>
    calibration_reply now data = Ret (put_be64 (u64_of_i64 (UnixNano now)))"
  by (simp add: calibration_reply_def Let_def)

text \<open>The calibration server answers everything and never panics.\<close>

lemma get_be64_Ret: "8 \<le> length bs \<Longrightarrow> \<exists>w. get_be64 bs = Ret w"
  by (cases "(bs)" rule: get_be64.cases) auto

lemma calibration_reply_total: "\<exists>v. calibration_reply now data = Ret (put_be64 v)"
proof (cases "8 \<le> length data")
  case True
  then obtain w where "get_be64 (take 8 data) = Ret w" using get_be64_Ret [of "take 8 data"] by auto
  then show ?thesis using True by (auto simp: calibration_reply_def Let_def)
qed (auto simp: calibration_reply_def Let_def)

lemma calibration_server_total:
  "\<exists>out. calibration_server_step now (ReadOk data a) = Ret [(out, a)] \<and> length out = 8"
  using calibration_reply_total [of now "take 1024 data"] by auto

lemma sendAndRecv_total: "\<exists>r. sendAndRecv pb p = Ret r"
  using get_be64_Ret [of "go_copy (put_be64 w) d" for w d]
  by (auto simp: sendAndRecv_def Let_def split: option.splits)

lemma sync_loop_total: "0 \<le> sync_count s \<Longrightarrow> \<exists>d. sync_loop pbs rounds i s = Ret d"
proof (induction rounds arbitrary: i s)
  case 0
  then show ?case by (simp add: sync_average_def go_div_def)
next
  case (Suc rounds)
  obtain r where r: "sendAndRecv (pbs i) (predictedServerNs s) = Ret r" using sendAndRecv_total by blast
  show ?case
  proof (cases r)
    case None
    then show ?thesis using r by simp
  next
    case (Some t)
    then obtain srvNs rtt tSend where "r = Some (srvNs, rtt, tSend)" by (cases t) auto
    then show ?thesis
      using r Suc.IH [of "record_probe (pbs i) srvNs rtt tSend s" "Suc i"] Suc.prems
      by (simp add: record_probe_def Let_def)
  qed
qed

text \<open>
  What one measurement gives: the halves of the round trip cancel, so the estimate is the
  server's clock on arrival minus the client's clock on sending, exactly.
\<close>

lemma estimate_exact:
  "last_estimate (record_probe pb srvNs rtt tSend s) = wrap64 (srvNs - UnixNano tSend)"
proof -
  let ?h = "rtt sdiv 2" and ?u = "UnixNano tSend"
  have "wrap64 (wrap64 (srvNs - wrap64 (?u + ?h)) + ?h) = wrap64 (wrap64 (srvNs - (?u + ?h)) + ?h)"
    by (simp only: wrap64_diff_wrap)
  also have "\<dots> = wrap64 (srvNs - (?u + ?h) + ?h)" by (simp only: wrap64_add_wrap)
  also have "srvNs - (?u + ?h) + ?h = srvNs - ?u" by simp
  finally show ?thesis by (simp add: last_estimate_def record_probe_def Let_def)
qed

text \<open>
  The network between them: a probe is lost, or reaches the server when its clock reads
  \<open>srv\<close> and is answered.
\<close>

definition lost :: "probe \<Rightarrow> bool" where
  "lost pb \<longleftrightarrow> \<not> pb_write_ok pb \<or> (\<forall>payload. pb_answer pb payload = None)"

definition answered :: "probe \<Rightarrow> gotime \<Rightarrow> bool" where
  "answered pb srv \<longleftrightarrow> pb_write_ok pb \<and>
     (\<forall>payload. length payload = 8 \<longrightarrow>
        (\<exists>out. calibration_reply srv payload = Ret out \<and> pb_answer pb payload = Some out))"

text \<open>
  What the measurement is about: the server's clock on arrival less the client's clock on
  sending, that is the clock difference plus the delay on the way to the server.
\<close>

definition true_offset :: "probe \<Rightarrow> gotime \<Rightarrow> int" where
  "true_offset pb srv = wall srv - wall (pb_send pb)"

definition round_trip :: "probe \<Rightarrow> int" where
  "round_trip pb = mono (pb_recv pb) - mono (pb_send pb)"

definition probe_ok :: "int \<Rightarrow> int \<Rightarrow> probe \<Rightarrow> gotime \<Rightarrow> bool" where
  "probe_ok lo hi pb srv \<longleftrightarrow> time_ok (pb_send pb) \<and> time_ok srv \<and> 0 < wall srv \<and>
     0 \<le> round_trip pb \<and> round_trip pb < 2 ^ 60 \<and>
     lo \<le> true_offset pb srv \<and> true_offset pb srv \<le> hi"

lemma sendAndRecv_lost: "lost pb \<Longrightarrow> sendAndRecv pb p = Ret None"
  by (auto simp: lost_def sendAndRecv_def Let_def)

lemma sendAndRecv_answered:
  assumes "answered pb srv" "probe_ok lo hi pb srv"
    and toSend: "toSend = (if p < 0 then UnixNano (pb_stamp pb) else p)" "int64_range toSend"
  shows "sendAndRecv pb p =
    Ret (Some (if toSend = wall srv then 0 else wall srv, round_trip pb, pb_send pb))"
proof -
  let ?pay = "put_be64 (u64_of_i64 toSend)"
  have srv: "UnixNano srv = wall srv" "int64_range (wall srv)"
    using assms(2) by (simp_all add: probe_ok_def time_ok_def UnixNano_ok int64_range_def)
  obtain out where out: "calibration_reply srv ?pay = Ret out" "pb_answer pb ?pay = Some out"
    and w: "pb_write_ok pb" using assms(1) length_put_be64 unfolding answered_def by blast
  have "out = put_be64 (if toSend = wall srv then 0 else u64_of_i64 (wall srv))"
    using out(1) calibration_reply_eq [of ?pay "u64_of_i64 toSend" srv] toSend(2) srv
    by (auto split: if_splits)
  moreover have "time_sub (pb_recv pb) (pb_send pb) = round_trip pb"
    using assms(2) by (simp add: probe_ok_def round_trip_def time_sub_exact int64_range_def)
  moreover have "i64_of_u64 0 = 0" by (simp add: i64_of_u64_def)
  ultimately show ?thesis
    using out w srv by (simp add: sendAndRecv_def Let_def toSend(1) [symmetric])
qed

text \<open>The bookkeeping after \<open>n\<close> measurements, each off by at most the halving of an odd round trip.\<close>

definition measured :: "int \<Rightarrow> int \<Rightarrow> int \<Rightarrow> sync_state \<Rightarrow> bool" where
  "measured lo hi n s \<longleftrightarrow> sync_count s = n \<and> 0 \<le> sumRtt s \<and> sumRtt s \<le> n * 2 ^ 60 \<and>
     2 * n * lo \<le> 2 * sumDelta s + sumRtt s \<and> 2 * sumDelta s + sumRtt s \<le> 2 * n * hi + n \<and>
     \<bar>sumDelta s\<bar> \<le> n * 2 ^ 61 \<and> int64_range (predictedServerNs s) \<and>
     (0 < n \<longrightarrow> lo \<le> last_estimate s \<and> last_estimate s \<le> hi)"

lemma measured_init: "measured lo hi 0 init_sync"
  by (simp add: measured_def init_sync_def int64_range_def)

lemma measured_step:
  assumes m: "measured lo hi n s" and n: "0 \<le> n" "n \<le> 2"
    and p: "probe_ok lo hi pb srv" and b: "- (2 ^ 60) \<le> lo" "hi \<le> 2 ^ 60"
  shows "measured lo hi (n + 1) (record_probe pb (wall srv) (round_trip pb) (pb_send pb) s)"
proof -
  let ?r = "round_trip pb" and ?s = "record_probe pb (wall srv) (round_trip pb) (pb_send pb) s"
  define d where "d = true_offset pb srv - ?r div 2"
  have r: "0 \<le> ?r" "?r < 2 ^ 60" and o: "lo \<le> true_offset pb srv" "true_offset pb srv \<le> hi"
    and t: "UnixNano (pb_send pb) = wall (pb_send pb)"
    using p by (simp_all add: probe_ok_def time_ok_def UnixNano_ok)
  have h: "?r sdiv 2 = ?r div 2" "0 \<le> ?r div 2" "?r div 2 < 2 ^ 59" "2 * (?r div 2) \<le> ?r" "?r \<le> 2 * (?r div 2) + 1"
    using r by (simp_all add: sdiv_nonneg)
  have d: "\<bar>d\<bar> < 2 ^ 61" using o h b by (auto simp: d_def abs_if)
  have "wrap64 (wall srv - wrap64 (wall (pb_send pb) + ?r div 2)) = wrap64 d"
    by (simp add: d_def true_offset_def algebra_simps)
  then have delta: "wrap64 (wall srv - wrap64 (wall (pb_send pb) + ?r div 2)) = d"
    using d by (simp add: wrap64_small abs_less_iff)
  have sums: "\<bar>sumDelta s\<bar> \<le> 2 * 2 ^ 61" "0 \<le> sumRtt s" "sumRtt s \<le> 2 * 2 ^ 60"
    using m n by (auto simp: measured_def intro: order_trans [OF _ mult_right_mono])
  have fits: "wrap64 (sumDelta s + d) = sumDelta s + d" "wrap64 (sumRtt s + ?r) = sumRtt s + ?r"
    using sums d r by (simp_all add: wrap64_small abs_le_iff abs_less_iff)
  have "last_estimate ?s = true_offset pb srv"
    using p o b unfolding estimate_exact t
    by (simp add: true_offset_def wrap64_small)
  moreover have "2 * d + ?r = 2 * true_offset pb srv + (?r - 2 * (?r div 2))" by (simp add: d_def)
  moreover have fields: "sync_count ?s = sync_count s + 1" "sumDelta ?s = sumDelta s + d" "sumRtt ?s = sumRtt s + ?r"
    unfolding record_probe_def Let_def t h(1) delta fits by simp_all
  moreover have "int64_range (predictedServerNs ?s)" by (simp add: record_probe_def Let_def)
  ultimately show ?thesis
    using m n r o h d unfolding measured_def by (simp add: fields algebra_simps abs_le_iff abs_less_iff)
qed

lemma measured_estimate: "measured lo hi n s \<Longrightarrow> 0 < n \<Longrightarrow> lo \<le> last_estimate s \<and> last_estimate s \<le> hi"
  by (simp add: measured_def)

lemma measured_average:
  assumes m: "measured lo hi 3 s" and b: "- (2 ^ 60) \<le> lo" "hi \<le> 2 ^ 60"
  shows "\<exists>d. sync_average s = Ret d \<and> lo - 1 \<le> d \<and> d \<le> hi + 1"
proof -
  let ?D = "sumDelta s" and ?R = "sumRtt s"
  define a where "a = ?D sdiv 3"
  define r where "r = ?R div 3"
  have c: "sync_count s = 3" "0 \<le> ?R" "?R \<le> 3 * 2 ^ 60" "6 * lo \<le> 2 * ?D + ?R" "2 * ?D + ?R \<le> 6 * hi + 3"
      "\<bar>?D\<bar> \<le> 3 * 2 ^ 61" using m by (simp_all add: measured_def)
  have a: "3 * a \<le> ?D + 2" "?D - 2 \<le> 3 * a"
    by (auto simp: a_def signed_divide_int_def sgn_if abs_if)
  have r: "3 * r \<le> ?R" "?R - 2 \<le> 3 * r" by (simp_all add: r_def)
  have h: "0 \<le> r" "2 * (r div 2) \<le> r" "r - 1 \<le> 2 * (r div 2)" using c(2) by (simp_all add: r_def)
  have "go_div ?D 3 = Ret a" "go_div ?R 3 = Ret r"
    using a r c by (simp_all add: go_div_def a_def [symmetric] sdiv_nonneg r_def [symmetric] wrap64_small abs_le_iff)
  moreover have "wrap64 (a + r sdiv 2) = a + r div 2"
    using a r h c b by (simp add: sdiv_nonneg wrap64_small)
  ultimately have "sync_average s = Ret (a + r div 2)" using c(1) by (simp add: sync_average_def)
  moreover have "lo - 1 \<le> a + r div 2" "a + r div 2 \<le> hi + 1" using a r h c(4,5) by linarith+
  ultimately show ?thesis by blast
qed

text \<open>
  After the first measurement, the rest of the loop ends within one nanosecond of the range
  of the true values, whatever the network loses.
\<close>

lemma sync_loop_accurate:
  assumes "\<And>j. lost (pbs j) \<or> answered (pbs j) (srv j) \<and> probe_ok lo hi (pbs j) (srv j)"
    and stamp: "\<And>j. int64_range (UnixNano (pb_stamp (pbs j)))"
    and b: "- (2 ^ 60) \<le> lo" "hi \<le> 2 ^ 60" "lo \<le> hi"
  shows "measured lo hi (int i) s \<Longrightarrow> 0 < i \<Longrightarrow> i + rounds = 3 \<Longrightarrow>
    \<exists>d. sync_loop pbs rounds i s = Ret d \<and> lo - 1 \<le> d \<and> d \<le> hi + 1"
proof (induction rounds arbitrary: i s)
  case 0
  then show ?case using measured_average [OF _ b(1,2)] by simp
next
  case (Suc rounds)
  have est: "lo - 1 \<le> last_estimate s" "last_estimate s \<le> hi + 1"
    using measured_estimate [OF Suc.prems(1)] Suc.prems(2) by simp_all
  consider "lost (pbs i)" | "answered (pbs i) (srv i)" "probe_ok lo hi (pbs i) (srv i)" using assms(1) by blast
  then show ?case
  proof cases
    case 1
    then show ?thesis using est Suc.prems by (simp add: sendAndRecv_lost measured_def)
  next
    case 2
    define p where "p = (if predictedServerNs s < 0 then UnixNano (pb_stamp (pbs i)) else predictedServerNs s)"
    have "int64_range p" using Suc.prems(1) stamp by (simp add: p_def measured_def)
    note sr = sendAndRecv_answered [OF 2 p_def this]
    have "measured lo hi (int (Suc i)) (record_probe (pbs i) (wall (srv i)) (round_trip (pbs i)) (pb_send (pbs i)) s)"
      using measured_step [OF Suc.prems(1) _ _ 2(2) b(1,2)] Suc.prems(3) by (simp add: add.commute)
    from Suc.IH [OF this] have "\<exists>d. sync_loop pbs rounds (Suc i)
        (record_probe (pbs i) (wall (srv i)) (round_trip (pbs i)) (pb_send (pbs i)) s) = Ret d \<and> lo - 1 \<le> d \<and> d \<le> hi + 1"
      using Suc.prems(3) by simp
    moreover have "wall (srv i) \<noteq> 0" using 2 by (simp add: probe_ok_def)
    ultimately show ?thesis using sr est Suc.prems(2) by simp
  qed
qed

lemma UnixNano_range [simp]: "int64_range (UnixNano t)"
  by (simp add: UnixNano_def)

text \<open>
  \<open>SyncWithServer\<close> as a whole, when the first probe is answered: the result is the true
  value up to one nanosecond, plus the gap between the two clock readings of the first
  probe (the code stamps the payload with one and measures from the other).
\<close>

lemma SyncWithServer_accuracy:
  assumes "dial_ok (resolveUDPAddr (ip @ '':9999''))"
    and first: "answered (pbs 0) (srv 0)" "probe_ok lo hi (pbs 0) (srv 0)"
    and rest: "\<And>j. lost (pbs j) \<or> answered (pbs j) (srv j) \<and> probe_ok lo hi (pbs j) (srv j)"
    and gap: "time_ok (pb_stamp (pbs 0))" "wall (pb_stamp (pbs 0)) \<le> wall (pb_send (pbs 0))"
      "wall (pb_send (pbs 0)) \<le> wall (pb_stamp (pbs 0)) + gap"
    and b: "- (2 ^ 60) \<le> lo" "hi \<le> 2 ^ 60"
  shows "\<exists>d. SyncWithServer dial_ok pbs ip = Ret d \<and> lo - 1 \<le> d \<and> d \<le> hi + gap + 1"
proof -
  let ?stamp = "UnixNano (pb_stamp (pbs 0))"
  have u: "?stamp = wall (pb_stamp (pbs 0))" using gap(1) by (simp add: time_ok_def UnixNano_ok)
  have "sendAndRecv (pbs 0) (predictedServerNs init_sync) = Ret (Some
    (if ?stamp = wall (srv 0) then 0 else wall (srv 0), round_trip (pbs 0), pb_send (pbs 0)))"
    by (rule sendAndRecv_answered [OF first]) (simp_all add: init_sync_def)
  moreover have lohi: "lo \<le> hi" "0 \<le> gap" using first(2) gap by (auto simp: probe_ok_def)
  moreover have "wall (srv 0) \<noteq> 0" using first(2) by (simp add: probe_ok_def)
  moreover have "lo \<le> 0 \<and> 0 \<le> hi + gap" if "?stamp = wall (srv 0)"
    using that u first(2) gap by (auto simp: probe_ok_def true_offset_def)
  moreover have "\<exists>d. sync_loop pbs 2 (Suc 0) (record_probe (pbs 0) (wall (srv 0)) (round_trip (pbs 0)) (pb_send (pbs 0)) init_sync)
      = Ret d \<and> lo - 1 \<le> d \<and> d \<le> hi + 1"
    using measured_step [OF measured_init _ _ first(2) b]
    by (intro sync_loop_accurate [OF rest _ b lohi(1)]) simp_all
  ultimately show ?thesis
    using assms(1) sync_loop.simps(2) [of pbs 2 0 init_sync]
    by (auto simp: SyncWithServer_def maxAttempts_def)
qed

lemma SyncWithServer_fallbacks:
  "\<not> dial_ok (resolveUDPAddr (ip @ '':9999'')) \<Longrightarrow> SyncWithServer dial_ok pbs ip = Ret 0"
  "dial_ok (resolveUDPAddr (ip @ '':9999'')) \<Longrightarrow> lost (pbs 0) \<Longrightarrow> SyncWithServer dial_ok pbs ip = Ret 10000000"
  by (simp_all add: SyncWithServer_def maxAttempts_def numeral_3_eq_3 sendAndRecv_lost init_sync_def)

lemma calibration_loop_latency:
  "latency (calibration_loop (map CalTick ls) c) = (if ls = [] then latency c else last ls)"
  by (induction ls arbitrary: c) auto

section \<open>Properties\<close>

text \<open>
  C11. \<open>SyncWithServer\<close> always returns. When its first probe is answered, its result is within
  one nanosecond of the range of the true values (the server's clock on arrival less the
  client's on sending), plus the gap between the two clock readings of the first probe,
  whatever later probes are lost and however unequal the two directions are.
\<close>

theorem calibration_accurate:
  assumes "dial_ok (resolveUDPAddr (ip @ '':9999''))"
    and "answered (pbs 0) (srv 0)" "probe_ok lo hi (pbs 0) (srv 0)"
    and "\<And>j. lost (pbs j) \<or> answered (pbs j) (srv j) \<and> probe_ok lo hi (pbs j) (srv j)"
    and "time_ok (pb_stamp (pbs 0))" "wall (pb_stamp (pbs 0)) \<le> wall (pb_send (pbs 0))"
      "wall (pb_send (pbs 0)) \<le> wall (pb_stamp (pbs 0)) + gap"
    and "- (2 ^ 60) \<le> lo" "hi \<le> 2 ^ 60"
  shows "\<exists>d. SyncWithServer dial_ok pbs ip = Ret d \<and> lo - 1 \<le> d \<and> d \<le> hi + gap + 1"
  by (rule SyncWithServer_accuracy [of dial_ok ip pbs srv lo hi gap, OF assms])

text \<open>Probes over a path of 3 ms out and 40 ms back to a server whose clock is 2 s ahead.\<close>

definition demo_server_clock :: "nat \<Rightarrow> gotime" where
  "demo_server_clock j = \<lparr>wall = 1700000000000000000 + int j * 50000000 + 2003000000, mono = 0\<rparr>"

definition demo_probe :: "nat \<Rightarrow> probe" where
  "demo_probe j = (let t = (\<lambda>ns. \<lparr>wall = 1700000000000000000 + int j * 50000000 + ns, mono = int j * 50000000 + ns\<rparr>)
     in \<lparr>pb_stamp = t 0, pb_send = t 0, pb_write_ok = True,
          pb_answer = (\<lambda>payload. case calibration_reply (demo_server_clock j) payload of Ret out \<Rightarrow> Some out | _ \<Rightarrow> None),
          pb_recv = t 43000000, pb_next = t 44000000\<rparr>)"

lemma demo_probe:
  "answered (demo_probe j) (demo_server_clock j)"
  "j < 1000 \<Longrightarrow> probe_ok 2003000000 2003000000 (demo_probe j) (demo_server_clock j)"
  "wall (pb_stamp (demo_probe 0)) = 1700000000000000000" "wall (pb_send (demo_probe 0)) = 1700000000000000000"
proof -
  have "\<exists>out. calibration_reply (demo_server_clock j) payload = Ret out" for payload
    using calibration_reply_total by blast
  note * = this
  show "answered (demo_probe j) (demo_server_clock j)"
    unfolding answered_def
  proof (intro conjI allI impI)
    show "pb_write_ok (demo_probe j)" by (simp add: demo_probe_def Let_def)
    fix payload
    obtain out where "calibration_reply (demo_server_clock j) payload = Ret out" using * by blast
    then show "\<exists>out. calibration_reply (demo_server_clock j) payload = Ret out \<and> pb_answer (demo_probe j) payload = Some out"
      by (simp add: demo_probe_def Let_def)
  qed
  show "j < 1000 \<Longrightarrow> probe_ok 2003000000 2003000000 (demo_probe j) (demo_server_clock j)"
    by (simp add: probe_ok_def demo_probe_def Let_def demo_server_clock_def time_ok_def round_trip_def true_offset_def)
qed (simp_all add: demo_probe_def Let_def)

definition demo_probes :: "nat \<Rightarrow> probe" where
  "demo_probes j = (if j < 1000 then demo_probe j else (demo_probe j)\<lparr>pb_write_ok := False\<rparr>)"

lemma demo_probes:
  "lost (demo_probes j) \<or> answered (demo_probes j) (demo_server_clock j) \<and>
    probe_ok 2003000000 2003000000 (demo_probes j) (demo_server_clock j)"
  "demo_probes 0 = demo_probe 0"
  by (auto simp: demo_probes_def demo_probe lost_def)

theorem calibration_accurate_witness:
  "\<exists>d. SyncWithServer (\<lambda>_. True) demo_probes ''192.168.1.2'' = Ret d \<and> 2002999999 \<le> d \<and> d \<le> 2003000001"
  using calibration_accurate [of "\<lambda>_. True" "''192.168.1.2''" demo_probes demo_server_clock 2003000000 2003000000 0]
    demo_probe demo_probes by (simp add: time_ok_def)

text \<open>
  C32. The calibration server answers every datagram, with eight bytes: zero when the first
  eight bytes are its own clock reading on arrival, and that reading otherwise.
\<close>

theorem calibration_server_answers:
  assumes "time_ok now"
  shows "\<exists>out. calibration_server_step now (ReadOk data a) = Ret [(put_be64 out, a)] \<and>
    (if 8 \<le> length data \<and> get_be64 (take 8 data) = Ret (u64_of_i64 (wall now)) then out = 0
     else i64_of_u64 out = wall now)"
proof -
  have u: "UnixNano now = wall now" "int64_range (wall now)" "0 \<le> wall now"
    using assms by (simp_all add: time_ok_def UnixNano_ok int64_range_def)
  show ?thesis
  proof (cases "8 \<le> length data")
    case True
    then obtain w where w: "get_be64 (take 8 data) = Ret w" using get_be64_Ret [of "take 8 data"] by auto
    have "i64_of_u64 w = wall now \<longleftrightarrow> w = u64_of_i64 (wall now)" using u by (metis i64_u64_inverse u64_i64_inverse)
    then show ?thesis using True w u by (auto simp: calibration_reply_def Let_def min_def)
  next
    case False
    then show ?thesis using u by (auto simp: calibration_reply_def Let_def)
  qed
qed

theorem calibration_server_answers_witness:
  "\<exists>out. calibration_server_step (demo_server_clock 0) (ReadOk [1, 2] None) = Ret [(put_be64 out, None)] \<and>
    i64_of_u64 out = 1700000002003000000"
  using calibration_server_answers [of "demo_server_clock 0" "[1, 2]" None]
  by (simp add: demo_server_clock_def time_ok_def)

text \<open>
  C33. A periodic calibration whose first probe gets no answer throws the measured latency
  away: the client goes on with 10 ms, whatever the clock difference is.
\<close>

theorem failed_calibration_forgets:
  assumes "\<not> isServer c" "dial_ok (resolveUDPAddr (ip @ '':9999''))" "lost (pbs 0)"
    and "SyncWithServer dial_ok pbs ip = Ret d"
  shows "latency (StartPeriodicCalibration interval (map CalTick (measured_before @ [d])) c) = 10000000"
  using assms SyncWithServer_fallbacks(2) [of dial_ok ip pbs] calibration_loop_latency [of "measured_before @ [d]" c]
  by (simp add: StartPeriodicCalibration_def calibration_interval_def)

theorem failed_calibration_forgets_witness:
  "latency (StartPeriodicCalibration 0 (map CalTick ([2003000000] @ [10000000])) demo_client) = 10000000"
proof -
  let ?pbs = "\<lambda>j. (demo_probe j)\<lparr>pb_write_ok := False\<rparr>"
  have l: "lost (?pbs 0)" by (simp add: lost_def)
  show ?thesis
    using failed_calibration_forgets [of demo_client "\<lambda>_. True" "''192.168.1.2''" ?pbs 10000000 0 "[2003000000]",
        OF demo_client(2) _ l] SyncWithServer_fallbacks(2) [of "\<lambda>_. True" "''192.168.1.2''" ?pbs, OF _ l] by simp
qed

end
