(* ===== verification/Cid_Generator.thy ===== *)
theory Cid_Generator
  imports Cid_Codec
begin

text \<open>
  \<open>FixedBytesGenerator\<close> of \<open>pkg/magic/tls.go\<close>, with which client and server name their
  connections. \<open>random\<close> is what \<open>rand.Read\<close> delivers, and \<open>fromBytes\<close> is quic-go's
  \<open>ConnectionIDFromBytes\<close>, which copies a slice of at most twenty bytes.
\<close>

record FixedBytesGenerator =
  Len :: int

definition GenerateConnectionID :: "(bytes \<Rightarrow> bytes go) \<Rightarrow> bytes \<Rightarrow> FixedBytesGenerator \<Rightarrow> bytes go" where
  "GenerateConnectionID fromBytes random g =
     (if Len g < 0 then Panic (Explicit ''makeslice: len out of range'')
      else let b = replicate (nat (Len g)) 0; b' = go_copy b random
           in fromBytes b')"

definition ConnectionIDLen :: "FixedBytesGenerator \<Rightarrow> int" where
  "ConnectionIDLen g = Len g"

text \<open>The generator of both programs.\<close>

definition program_generator :: FixedBytesGenerator where
  "program_generator = \<lparr>Len = int FixedCIDLen\<rparr>"

lemma program_generator_length:
  assumes "\<And>b. length b \<le> 20 \<Longrightarrow> fromBytes b = Ret b"
  shows "\<exists>cid. GenerateConnectionID fromBytes random program_generator = Ret cid \<and> length cid = 16"
  by (simp add: GenerateConnectionID_def program_generator_def assms)

text \<open>
  C36. The connection IDs of the programs have the type the codec wants: whatever the random
  source delivers, a generated ID has the announced length of sixteen bytes, so encoding it does
  not panic, the wire form is again a connection ID of that length, and decoding it in the other
  process recovers its first seven bytes.
\<close>

theorem generated_ids_fit_codec:
  assumes "\<And>b. length b \<le> 20 \<Longrightarrow> fromBytes b = Ret b"
    and "\<And>seed. source_lively (newSource seed)" "algo_inv newSource sender" "algo_inv newSource receiver"
  shows "\<exists>cid wire sender' receiver'. GenerateConnectionID fromBytes random program_generator = Ret cid \<and>
    int (length cid) = ConnectionIDLen program_generator \<and>
    Obfuscate newSource sender cid seed = Ret (wire, sender') \<and> int (length wire) = ConnectionIDLen program_generator \<and>
    Deobfuscate newSource receiver wire = Ret (take 7 cid @ replicate 9 0, receiver')"
proof -
  obtain cid where cid: "GenerateConnectionID fromBytes random program_generator = Ret cid" "length cid = 16"
    using program_generator_length [of fromBytes random, OF assms(1)] by blast
  show ?thesis
    using codec_any [of newSource sender cid seed, OF assms(3,2)] assms(4) cid
    by (auto simp: ConnectionIDLen_def program_generator_def)
qed

theorem generated_ids_fit_codec_witness:
  "\<exists>wire s r. Obfuscate zero_source init_algo ([9, 8, 7] @ replicate 13 0) 48879 = Ret (wire, s) \<and> length wire = 16 \<and>
    Deobfuscate zero_source init_algo wire = Ret ([9, 8, 7, 0, 0, 0, 0] @ replicate 9 0, r)"
proof -
  have g: "GenerateConnectionID Ret [9, 8, 7] program_generator = Ret ([9, 8, 7] @ replicate 13 0)"
    by (simp add: GenerateConnectionID_def program_generator_def go_copy_def)
  have "\<exists>cid wire sender' receiver'. GenerateConnectionID Ret [9, 8, 7] program_generator = Ret cid \<and>
    int (length cid) = ConnectionIDLen program_generator \<and>
    Obfuscate zero_source init_algo cid 48879 = Ret (wire, sender') \<and> int (length wire) = ConnectionIDLen program_generator \<and>
    Deobfuscate zero_source init_algo wire = Ret (take 7 cid @ replicate 9 0, receiver')"
    by (rule generated_ids_fit_codec [of Ret zero_source, OF refl source_lively_zero algo_inv_init algo_inv_init])
  then show ?thesis using g by (auto simp: ConnectionIDLen_def program_generator_def numeral_eq_Suc)
qed

end
