(* ===== verification/Stream_Prog.thy ===== *)
theory Stream_Prog
  imports Hop_Prelude
begin

text \<open>
  Programs that talk over one QUIC stream. A program is a tree of calls on the stream, each with
  its continuation for every answer: \<open>Write\<close>, \<open>io.ReadFull\<close>, a single \<open>Read\<close>, the return and
  the panic. \<open>stream_run\<close> runs one program against everything a peer and the network may do;
  \<open>net_step\<close> runs two programs against each other, and \<open>good\<close> says that every schedule ends well.
\<close>

section \<open>Programs\<close>

datatype stream_error = EOF | UnexpectedEOF | NetError string

datatype 'r prog =
    Done 'r
  | Crash go_panic
  | Send bytes "stream_error option \<Rightarrow> 'r prog"
  | RecvFull nat "stream_error + bytes \<Rightarrow> 'r prog"
  | RecvSome nat "bytes \<times> stream_error option \<Rightarrow> 'r prog"

primrec prog_bind :: "'a prog \<Rightarrow> ('a \<Rightarrow> 'b prog) \<Rightarrow> 'b prog" where
  "prog_bind (Done r) f = f r"
| "prog_bind (Crash p) f = Crash p"
| "prog_bind (Send bs k) f = Send bs (\<lambda>a. prog_bind (k a) f)"
| "prog_bind (RecvFull n k) f = RecvFull n (\<lambda>a. prog_bind (k a) f)"
| "prog_bind (RecvSome n k) f = RecvSome n (\<lambda>a. prog_bind (k a) f)"

text \<open>\<open>io.ReadFull\<close> on an ended stream: the error depends on whether anything was read.\<close>

definition short_read :: "bytes \<Rightarrow> stream_error" where
  "short_read got = (if got = [] then EOF else UnexpectedEOF)"

section \<open>One program against any peer\<close>

text \<open>
  \<open>stream_run inp p out res\<close>: a run of \<open>p\<close> that returns \<open>res\<close>, where \<open>inp\<close> is what the peer
  sends before it closes the stream, and \<open>out\<close> what \<open>p\<close> wrote. The network splits the input at
  will, and any call may fail.
\<close>

inductive stream_run :: "bytes \<Rightarrow> 'r prog \<Rightarrow> bytes \<Rightarrow> 'r \<Rightarrow> bool" where
  run_Done: "stream_run inp (Done r) [] r"
| run_Send: "stream_run inp (k None) out r \<Longrightarrow> stream_run inp (Send bs k) (bs @ out) r"
| run_Send_fails: "stream_run inp (k (Some e)) out r \<Longrightarrow> stream_run inp (Send bs k) (take m bs @ out) r"
| run_RecvFull: "length got = n \<Longrightarrow> stream_run inp (k (Inr got)) out r \<Longrightarrow> stream_run (got @ inp) (RecvFull n k) out r"
| run_RecvFull_short: "length inp < n \<Longrightarrow> stream_run [] (k (Inl (short_read inp))) out r \<Longrightarrow>
    stream_run inp (RecvFull n k) out r"
| run_RecvFull_fails: "stream_run inp (k (Inl (NetError e))) out r \<Longrightarrow> stream_run (got @ inp) (RecvFull n k) out r"
| run_RecvSome: "got \<noteq> [] \<Longrightarrow> length got \<le> n \<Longrightarrow> stream_run inp (k (got, None)) out r \<Longrightarrow>
    stream_run (got @ inp) (RecvSome n k) out r"
| run_RecvSome_last: "length got \<le> n \<Longrightarrow> stream_run [] (k (got, Some EOF)) out r \<Longrightarrow>
    stream_run got (RecvSome n k) out r"
| run_RecvSome_fails: "length got \<le> n \<Longrightarrow> stream_run inp (k (got, Some (NetError e))) out r \<Longrightarrow>
    stream_run (got @ inp) (RecvSome n k) out r"

inductive_simps run_Done_iff [simp]: "stream_run inp (Done r') out r"
inductive_simps run_Crash_iff [simp]: "stream_run inp (Crash p) out r"
inductive_cases run_SendE: "stream_run inp (Send bs k) out r"
inductive_cases run_RecvFullE: "stream_run inp (RecvFull n k) out r"
inductive_cases run_RecvSomeE: "stream_run inp (RecvSome n k) out r"

section \<open>Two programs against each other\<close>

text \<open>A side is a program with the bytes that have reached it and were not read yet.\<close>

type_synonym 'r side = "'r prog \<times> bytes"
type_synonym ('a, 'b) net = "'a side \<times> 'b side"

fun is_done :: "'r prog \<Rightarrow> bool" where
  "is_done (Done _) = True"
| "is_done _ = False"

text \<open>A step of one side: its program, its inbox, what the peer gets, whether the peer has closed.\<close>

inductive side_step :: "bool \<Rightarrow> 'r side \<Rightarrow> 'r side \<Rightarrow> bytes \<Rightarrow> bool" where
  step_Send: "side_step closed (Send bs k, inb) (k None, inb) bs"
| step_RecvFull: "length got = n \<Longrightarrow> side_step closed (RecvFull n k, got @ inb) (k (Inr got), inb) []"
| step_RecvFull_short: "closed \<Longrightarrow> length inb < n \<Longrightarrow>
    side_step closed (RecvFull n k, inb) (k (Inl (short_read inb)), []) []"
| step_RecvSome: "got \<noteq> [] \<Longrightarrow> length got \<le> n \<Longrightarrow>
    side_step closed (RecvSome n k, got @ inb) (k (got, None), inb) []"
| step_RecvSome_last: "closed \<Longrightarrow> length got \<le> n \<Longrightarrow>
    side_step closed (RecvSome n k, got) (k (got, Some EOF), []) []"

inductive_simps side_step_Done [simp]: "side_step closed (Done r, inb) s' w"
inductive_simps side_step_Crash [simp]: "side_step closed (Crash p, inb) s' w"
inductive_simps side_step_Send_iff: "side_step closed (Send bs k, inb) s' w"
inductive_simps side_step_RecvFull_iff: "side_step closed (RecvFull n k, inb) s' w"
inductive_simps side_step_RecvSome_iff: "side_step closed (RecvSome n k, inb) s' w"

inductive net_step :: "('a, 'b) net \<Rightarrow> ('a, 'b) net \<Rightarrow> bool" where
  net_left: "side_step (is_done (fst r)) l l' w \<Longrightarrow> net_step (l, r) (l', (fst r, snd r @ w))"
| net_right: "side_step (is_done (fst l)) r r' w \<Longrightarrow> net_step (l, r) ((fst l, snd l @ w), r')"

inductive_cases net_stepE: "net_step (l, r) c'"

text \<open>
  \<open>good Q c\<close>: every schedule from \<open>c\<close> ends, and it ends with both programs returned and \<open>Q\<close>
  true of their results and of the bytes nobody read.
\<close>

inductive good :: "('a \<times> bytes \<Rightarrow> 'b \<times> bytes \<Rightarrow> bool) \<Rightarrow> ('a, 'b) net \<Rightarrow> bool" for Q where
  good_done: "Q (a, ia) (b, ib) \<Longrightarrow> good Q ((Done a, ia), (Done b, ib))"
| good_step: "net_step c c1 \<Longrightarrow> (\<And>c'. net_step c c' \<Longrightarrow> good Q c') \<Longrightarrow> good Q c"

text \<open>What this means for the runs: no infinite run, and only final states are stuck.\<close>

lemma good_no_infinite_run:
  assumes "good Q c"
  shows "\<not> (\<exists>f. f 0 = c \<and> (\<forall>i. net_step (f i) (f (Suc i))))"
  using assms
proof induction
  case (good_done a ia b ib)
  have "\<not> net_step ((Done a, ia), (Done b, ib)) c'" for c' by (auto elim!: net_stepE)
  then show ?case by metis
next
  case (good_step c c1)
  have False if f: "f 0 = c" "\<forall>i. net_step (f i) (f (Suc i))" for f
  proof -
    have "net_step c (f (Suc 0))" using f by metis
    then have "\<not> (\<exists>g. g 0 = f (Suc 0) \<and> (\<forall>i. net_step (g i) (g (Suc i))))" by (rule good_step.IH)
    then show False using f(2) by (auto dest: spec [of _ "\<lambda>i. f (Suc i)"])
  qed
  then show ?case by blast
qed

lemma good_steps:
  assumes "good Q c" "net_step\<^sup>*\<^sup>* c c'"
  shows "good Q c'"
  using assms(2,1)
proof (induction rule: rtranclp_induct)
  case (step c1 c2)
  then have "good Q c1" by blast
  then show ?case
  proof cases
    case (good_done a ia b ib)
    then show ?thesis using step(2) by (auto elim!: net_stepE)
  next
    case (good_step c1')
    then show ?thesis using step(2) by blast
  qed
qed

lemma good_stuck:
  assumes "good Q c" "\<And>c'. \<not> net_step c c'"
  obtains a ia b ib where "c = ((Done a, ia), (Done b, ib))" "Q (a, ia) (b, ib)"
  using assms by (cases rule: good.cases) auto


text \<open>The two facts together, as the properties state them.\<close>

definition ends_with :: "('a \<times> bytes \<Rightarrow> 'b \<times> bytes \<Rightarrow> bool) \<Rightarrow> ('a, 'b) net \<Rightarrow> bool" where
  "ends_with Q c \<longleftrightarrow> \<not> (\<exists>f. f 0 = c \<and> (\<forall>i. net_step (f i) (f (Suc i)))) \<and>
     (\<forall>c'. net_step\<^sup>*\<^sup>* c c' \<longrightarrow> (\<exists>c''. net_step c' c'') \<or>
        (\<exists>a ia b ib. c' = ((Done a, ia), (Done b, ib)) \<and> Q (a, ia) (b, ib)))"

lemma good_ends_with: "good Q c \<Longrightarrow> ends_with Q c"
  unfolding ends_with_def by (metis good_no_infinite_run good_steps good_stuck)

section \<open>Steps that may be taken first\<close>

text \<open>
  A write, and a full read whose bytes have all arrived, have one outcome that nothing the other
  side does can change. It is enough to look at the schedules that take such a step at once.
\<close>

definition settled :: "'r side \<Rightarrow> 'r side \<Rightarrow> bytes \<Rightarrow> bool" where
  "settled l l' w \<longleftrightarrow> (\<forall>closed x s v. side_step closed (fst l, snd l @ x) s v \<longleftrightarrow> s = (fst l', snd l' @ x) \<and> v = w)"

lemma settled_step: "settled l l' w \<Longrightarrow> side_step closed l s v \<longleftrightarrow> s = l' \<and> v = w"
  unfolding settled_def by (metis append_Nil2 prod.collapse)

lemma settled_more: "settled l l' w \<Longrightarrow> settled (fst l, snd l @ x) (fst l', snd l' @ x) w"
  by (simp add: settled_def)

lemma settled_not_done: "settled l l' w \<Longrightarrow> \<not> is_done (fst l)"
  using settled_step [of l l' w False l' w] by (cases l; cases "fst l") auto

lemma settled_Send [intro]: "settled (Send bs k, inb) (k None, inb) bs"
  by (auto simp: settled_def side_step_Send_iff)

lemma settled_RecvFull [intro]: "length got = n \<Longrightarrow> settled (RecvFull n k, got @ inb) (k (Inr got), inb) []"
  by (auto simp: settled_def side_step_RecvFull_iff append_eq_append_conv)

text \<open>While the peer is open, what has arrived later does not disturb a step.\<close>

lemma side_step_more:
  assumes "side_step False s s' v"
  shows "side_step closed (fst s, snd s @ x) (fst s', snd s' @ x) v"
  using assms by cases (auto intro: side_step.intros simp: append_assoc)

lemma eager_left:
  assumes "settled l l' w" "good Q (l', (fst r, snd r @ w))"
  shows "good Q (l, r)"
proof -
  have "good Q c \<Longrightarrow> c = (l', (fst r, snd r @ w)) \<Longrightarrow> settled l l' w \<Longrightarrow> good Q (l, r)" for c
  proof (induction arbitrary: l l' r w rule: good.induct)
    case (good_done a ia b ib)
    note s = settled_step [OF good_done.prems(2)]
    have r: "fst r = Done b" using good_done.prems(1) by simp
    have c: "good Q (l', (fst r, snd r @ w))"
      unfolding good_done.prems(1) [symmetric] using good_done.hyps by (rule good.good_done)
    show ?case
    proof (rule good.good_step)
      show "net_step (l, r) (l', (fst r, snd r @ w))" by (rule net_left) (simp add: s)
      show "good Q d" if "net_step (l, r) d" for d
        using that c r s by (cases r) (auto elim!: net_stepE)
    qed
  next
    case (good_step c c1)
    note s = settled_step [OF good_step.prems(2)]
    have c: "good Q c" by (rule good.good_step [OF good_step(1)]) (rule good_step(2))
    show ?case
    proof (rule good.good_step)
      show "net_step (l, r) c" unfolding good_step.prems(1) by (rule net_left) (simp add: s)
      fix d
      assume "net_step (l, r) d"
      then consider "d = c" | v r' where "d = ((fst l, snd l @ v), r')" "side_step (is_done (fst l)) r r' v"
        by (cases rule: net_step.cases) (auto simp: s good_step.prems(1))
      then show "good Q d"
      proof cases
        case 1
        then show ?thesis using c by simp
      next
        case 2
        have "side_step (is_done (fst l')) (fst r, snd r @ w) (fst r', snd r' @ w) v"
          using side_step_more 2(2) settled_not_done [OF good_step.prems(2)] by simp
        from net_right [OF this]
        have "net_step c ((fst l', snd l' @ v), (fst r', snd r' @ w))" by (simp add: good_step.prems(1))
        then have "good Q ((fst l, snd l @ v), r')"
          by (rule good_step.IH [OF _ refl settled_more [OF good_step.prems(2)]])
        then show ?thesis using 2(1) by simp
      qed
    qed
  qed
  then show ?thesis using assms by blast
qed

lemma net_step_swap: "net_step (l, r) (l', r') \<longleftrightarrow> net_step (r, l) (r', l')"
  by (auto elim!: net_stepE intro: net_step.intros)

lemma good_swap:
  assumes "good Q (l, r)"
  shows "good (\<lambda>b a. Q a b) (r, l)"
  using assms
proof (induction "(l, r)" arbitrary: l r rule: good.induct)
  case (good_done a ia b ib)
  then show ?case by (auto intro: good.good_done)
next
  case (good_step c1)
  obtain l1 r1 where c1: "c1 = (l1, r1)" by (cases c1)
  show ?case
  proof (rule good.good_step)
    show "net_step (r, l) (r1, l1)" using good_step(1) c1 net_step_swap by blast
    fix d
    assume d: "net_step (r, l) d"
    obtain r2 l2 where "d = (r2, l2)" by (cases d)
    then show "good (\<lambda>b a. Q a b) d" using good_step(3) d net_step_swap by blast
  qed
qed

lemma eager_right:
  assumes "settled r r' w" "good Q ((fst l, snd l @ w), r')"
  shows "good Q (l, r)"
  using good_swap [OF eager_left [OF assms(1) good_swap [OF assms(2)]]] by simp

text \<open>The same for the calls themselves.\<close>

lemma good_Send_left: "good Q ((k None, il), (p, ir @ bs)) \<Longrightarrow> good Q ((Send bs k, il), (p, ir))"
  by (rule eager_left [OF settled_Send]) simp

lemma good_Send_right: "good Q ((p, il @ bs), (k None, ir)) \<Longrightarrow> good Q ((p, il), (Send bs k, ir))"
  by (rule eager_right [OF settled_Send]) simp

lemma good_RecvFull_left:
  assumes "n \<le> length il" "good Q ((k (Inr (take n il)), drop n il), r)"
  shows "good Q ((RecvFull n k, il), r)"
  using eager_left [OF settled_RecvFull [of "take n il" n k "drop n il"]] assms by simp

lemma good_RecvFull_right:
  assumes "n \<le> length ir" "good Q (l, (k (Inr (take n ir)), drop n ir))"
  shows "good Q (l, (RecvFull n k, ir))"
  using eager_right [OF settled_RecvFull [of "take n ir" n k "drop n ir"]] assms by simp

lemma good_Done: "Q (a, ia) (b, ib) \<Longrightarrow> good Q ((Done a, ia), (Done b, ib))"
  by (rule good.good_done)

lemmas good_calls = good_Send_left good_Send_right good_RecvFull_left good_RecvFull_right good_Done

text \<open>
  A loop of single reads on one side, while the other waits for bytes that have not come: however
  the bytes are split, the loop takes them all.
\<close>

lemma good_read_loop:
  assumes "0 < b" "length il < n"
    and R: "\<And>i. i < tot \<Longrightarrow> R i = RecvSome b (K i)" "\<And>i got. got \<noteq> [] \<Longrightarrow> K i (got, None) = R (i + length got)"
    and "i + length ir = tot" "good Q ((RecvFull n k, il), (R tot, []))"
  shows "good Q ((RecvFull n k, il), (R i, ir))"
  using assms(5)
proof (induction "length ir" arbitrary: i ir rule: less_induct)
  case less
  show ?case
  proof (cases "ir = []")
    case True
    then show ?thesis using less(2) assms(6) by simp
  next
    case False
    then have i: "i < tot" using less(2) by (cases ir) auto
    let ?c = "((RecvFull n k, il), (R i, ir))"
    obtain x xs where ir: "ir = x # xs" using False by (cases ir) auto
    show ?thesis
    proof (rule good.good_step)
      have "side_step False (RecvSome b (K i), [x] @ xs) (K i ([x], None), xs) []"
        using assms(1) by (intro step_RecvSome) simp_all
      then show "net_step ?c ((RecvFull n k, il @ []), (K i ([x], None), xs))"
        using net_right [of "(RecvFull n k, il)" "(R i, ir)" "(K i ([x], None), xs)" "[]"] R(1) [OF i] by (simp add: ir)
    next
      fix d
      assume "net_step ?c d"
      then obtain got rest where d: "ir = got @ rest" "got \<noteq> []" "d = ((RecvFull n k, il), (R (i + length got), rest))"
        using assms(2) R(2) unfolding R(1) [OF i]
        by (auto elim!: net_stepE simp: side_step_RecvFull_iff side_step_RecvSome_iff)
      show "good Q d" unfolding d(3) using d(1,2) less(2) by (intro less(1)) auto
    qed
  qed
qed

end
