(* ===== verification/Go_Float.thy ===== *)
theory Go_Float
  imports Go_Time "HOL-Library.Log_Nat"
begin

text \<open>
  Go's \<open>float64\<close>: finite values as rationals, every operation the exact result rounded to
  53 bits, to nearest with ties to even, with the exponent range of IEEE 754 double precision.
  The sign of a zero is not kept.
\<close>

datatype f64 = Fin rat | PInf | NInf | NaN

section \<open>Rounding\<close>

definition pow2 :: "int \<Rightarrow> rat" where
  "pow2 k = (if 0 \<le> k then 2 ^ nat k else 1 / 2 ^ nat (- k))"

text \<open>The exponent \<open>e\<close> of a positive \<open>q\<close>, with \<open>2^e \<le> q < 2^(e+1)\<close>.\<close>

definition rat_exp :: "rat \<Rightarrow> int" where
  "rat_exp q = (let (n, d) = quotient_of q; k = bitlen n - bitlen d in if pow2 k \<le> q then k else k - 1)"

definition round_even :: "rat \<Rightarrow> int" where
  "round_even q = (let f = \<lfloor>q\<rfloor>; r = q - of_int f
     in if r < 1 / 2 then f else if 1 / 2 < r then f + 1 else if even f then f else f + 1)"

text \<open>The distance between neighbours at exponent \<open>e\<close>, subnormals included.\<close>

definition f64_ulp :: "int \<Rightarrow> rat" where
  "f64_ulp e = pow2 (max (e - 52) (- 1074))"

definition round_pos :: "rat \<Rightarrow> rat" where
  "round_pos q = (if q \<le> 0 then 0 else let u = f64_ulp (rat_exp q) in of_int (round_even (q / u)) * u)"

definition f64_round :: "rat \<Rightarrow> f64" where
  "f64_round q =
     (if 0 \<le> q then let r = round_pos q in if pow2 1024 \<le> r then PInf else Fin r
      else let r = round_pos (- q) in if pow2 1024 \<le> r then NInf else Fin (- r))"

section \<open>Operations\<close>

fun f_add :: "f64 \<Rightarrow> f64 \<Rightarrow> f64" where
  "f_add (Fin a) (Fin b) = f64_round (a + b)"
| "f_add NaN _ = NaN" | "f_add _ NaN = NaN"
| "f_add PInf NInf = NaN" | "f_add NInf PInf = NaN"
| "f_add PInf _ = PInf" | "f_add _ PInf = PInf"
| "f_add NInf _ = NInf" | "f_add _ NInf = NInf"

fun f_neg :: "f64 \<Rightarrow> f64" where
  "f_neg (Fin a) = Fin (- a)" | "f_neg PInf = NInf" | "f_neg NInf = PInf" | "f_neg NaN = NaN"

definition f_sub :: "f64 \<Rightarrow> f64 \<Rightarrow> f64" where
  "f_sub a b = f_add a (f_neg b)"

definition f_inf :: "rat \<Rightarrow> f64" where
  "f_inf s = (if 0 < s then PInf else if s < 0 then NInf else NaN)"

fun f_mul :: "f64 \<Rightarrow> f64 \<Rightarrow> f64" where
  "f_mul (Fin a) (Fin b) = f64_round (a * b)"
| "f_mul NaN _ = NaN" | "f_mul _ NaN = NaN"
| "f_mul (Fin a) PInf = f_inf a" | "f_mul PInf (Fin a) = f_inf a"
| "f_mul (Fin a) NInf = f_inf (- a)" | "f_mul NInf (Fin a) = f_inf (- a)"
| "f_mul PInf PInf = PInf" | "f_mul NInf NInf = PInf" | "f_mul PInf NInf = NInf" | "f_mul NInf PInf = NInf"

fun f_div :: "f64 \<Rightarrow> f64 \<Rightarrow> f64" where
  "f_div (Fin a) (Fin b) = (if b = 0 then f_inf a else f64_round (a / b))"
| "f_div NaN _ = NaN" | "f_div _ NaN = NaN"
| "f_div (Fin a) _ = Fin 0"
| "f_div PInf (Fin b) = (if b < 0 then NInf else PInf)"
| "f_div NInf (Fin b) = (if b < 0 then PInf else NInf)"
| "f_div _ _ = NaN"

fun f_less :: "f64 \<Rightarrow> f64 \<Rightarrow> bool" where
  "f_less (Fin a) (Fin b) \<longleftrightarrow> a < b"
| "f_less NInf (Fin _) = True" | "f_less NInf PInf = True" | "f_less (Fin _) PInf = True"
| "f_less _ _ = False"

definition f_of_int :: "int \<Rightarrow> f64" where
  "f_of_int i = f64_round (of_int i)"

definition f_of_u64 :: "u64 \<Rightarrow> f64" where
  "f_of_u64 w = f_of_int (uint w)"

text \<open>
  \<open>uint64(x)\<close> cuts the fraction; for a value outside the range the result is whatever the
  machine gives, the argument \<open>oor\<close>.
\<close>

definition u64_of_f64 :: "(f64 \<Rightarrow> u64) \<Rightarrow> f64 \<Rightarrow> u64" where
  "u64_of_f64 oor x =
     (case x of Fin a \<Rightarrow> if - 1 < a \<and> a < 2 ^ 64 then word_of_int (if a < 0 then 0 else \<lfloor>a\<rfloor>) else oor x
      | _ \<Rightarrow> oor x)"

text \<open>\<open>Duration.Seconds\<close>: whole seconds plus the rest over a billion.\<close>

definition Seconds :: "duration \<Rightarrow> f64" where
  "Seconds d = f_add (f_of_int (d sdiv 1000000000)) (f_div (f_of_int (d smod 1000000000)) (f_of_int 1000000000))"

section \<open>Rounding is monotone and exact on small integers\<close>

lemma pow2_pos [simp]: "0 < pow2 k"
  by (simp add: pow2_def)

lemma pow2_simps [simp]: "0 \<le> pow2 k" "pow2 k \<noteq> 0"
  using pow2_pos [of k] by linarith+

lemma pow2_powi: "pow2 k = 2 powi k"
  by (simp add: pow2_def power_int_def inverse_eq_divide power_one_over)

lemma pow2_add: "pow2 (j + k) = pow2 j * pow2 k"
  by (simp add: pow2_powi power_int_add)

lemma pow2_int: "0 \<le> k \<Longrightarrow> \<exists>i. pow2 k = of_int i"
  by (auto simp: pow2_def intro!: exI [of _ "2 ^ nat k"])

lemma pow2_mono: "j \<le> k \<Longrightarrow> pow2 j \<le> pow2 k"
  by (simp add: pow2_powi power_int_increasing)

lemma pow2_less_imp: "pow2 j < pow2 k \<Longrightarrow> j < k"
  using pow2_mono [of k j] by (meson leD leI)

lemma pow2_nat: "0 \<le> k \<Longrightarrow> pow2 k = of_int (2 ^ nat k)"
  by (simp add: pow2_def)

lemma rat_exp_bounds:
  assumes "0 < q"
  shows "pow2 (rat_exp q) \<le> q" "q < pow2 (rat_exp q + 1)"
proof -
  obtain n d where nd: "quotient_of q = (n, d)" by (cases "quotient_of q")
  have q: "q = of_int n / of_int d" "0 < d" using nd quotient_of_div quotient_of_denom_pos by auto
  then have n: "0 < n" using assms by (simp add: zero_less_divide_iff)
  define a b where "a = bitlen n" and "b = bitlen d"
  have ab: "1 \<le> a" "1 \<le> b" using n q(2) bitlen_alt_def [of n] bitlen_alt_def [of d] by (auto simp: a_def b_def)
  have A: "pow2 (a - 1) \<le> of_int n" "of_int n < pow2 a" and B: "pow2 (b - 1) \<le> of_int d" "of_int d < pow2 b"
    using bitlen_bounds [OF n] bitlen_bounds [OF q(2)] ab unfolding a_def [symmetric] b_def [symmetric]
    by (simp_all only: pow2_nat of_int_le_iff of_int_less_iff diff_ge_0_iff_ge order_trans [OF zero_le_one] simp_thms)
  have d: "0 < (of_int d :: rat)" using q(2) by simp
  have "q < pow2 (a - b + 1)"
  proof -
    have "(of_int n :: rat) < pow2 a" by (rule A)
    also have "pow2 a = pow2 (a - b + 1) * pow2 (b - 1)" by (simp add: pow2_add [symmetric])
    also have "\<dots> \<le> pow2 (a - b + 1) * of_int d" by (rule mult_left_mono [OF B(1)]) simp
    finally show ?thesis using d by (simp add: q(1) divide_less_eq)
  qed
  moreover have "pow2 (a - b - 1) \<le> q"
  proof -
    have "pow2 (a - b - 1) * of_int d \<le> pow2 (a - b - 1) * pow2 b" by (rule mult_left_mono) (use B in simp_all)
    also have "\<dots> = pow2 (a - 1)" by (simp add: pow2_add [symmetric])
    also have "\<dots> \<le> of_int n" by (rule A)
    finally show ?thesis using d by (simp add: q(1) le_divide_eq)
  qed
  ultimately show "pow2 (rat_exp q) \<le> q" "q < pow2 (rat_exp q + 1)"
    by (auto simp: rat_exp_def nd Let_def a_def b_def)
qed

lemma rat_exp_mono: "0 < p \<Longrightarrow> p \<le> q \<Longrightarrow> rat_exp p \<le> rat_exp q"
  using rat_exp_bounds [of p] rat_exp_bounds [of q] pow2_less_imp [of "rat_exp p" "rat_exp q + 1"] by fastforce

lemma round_even_of_int [simp]: "round_even (of_int i) = i"
  by (simp add: round_even_def)

lemma round_even_near: "\<bar>of_int (round_even q) - q\<bar> \<le> 1 / 2"
  using floor_correct [of q] by (auto simp: round_even_def Let_def abs_le_iff)

lemma round_even_mono:
  assumes "p \<le> q"
  shows "round_even p \<le> round_even q"
proof (cases "\<lfloor>p\<rfloor> = \<lfloor>q\<rfloor>")
  case True
  then show ?thesis using assms by (auto simp: round_even_def Let_def)
next
  case False
  then have "\<lfloor>p\<rfloor> + 1 \<le> \<lfloor>q\<rfloor>" using floor_mono [OF assms] by simp
  then show ?thesis by (auto simp: round_even_def Let_def)
qed

lemma round_even_le: "p \<le> of_int i \<Longrightarrow> round_even p \<le> i"
  using round_even_mono [of p "of_int i"] by simp

lemma round_even_ge: "of_int i \<le> p \<Longrightarrow> i \<le> round_even p"
  using round_even_mono [of "of_int i" p] by simp

lemma f64_ulp_pos [simp]: "0 < f64_ulp e"
  by (simp add: f64_ulp_def)

lemma f64_ulp_simps [simp]: "0 \<le> f64_ulp e" "f64_ulp e \<noteq> 0"
  using f64_ulp_pos [of e] by linarith+

text \<open>A power of two is a multiple of the unit of the values below it.\<close>

lemma pow2_over_ulp:
  assumes "e < e'" "- 1074 \<le> e'"
  shows "\<exists>i. pow2 e' / f64_ulp e = of_int i"
proof -
  have "pow2 e' = pow2 (e' - max (e - 52) (- 1074)) * f64_ulp e"
    by (simp add: f64_ulp_def pow2_add [symmetric])
  then show ?thesis using pow2_int [of "e' - max (e - 52) (- 1074)"] assms f64_ulp_pos [of e] by auto
qed

lemma pow2_over_own_ulp:
  assumes "- 1074 \<le> e"
  shows "\<exists>i. pow2 e / f64_ulp e = of_int i"
proof -
  have "pow2 e = pow2 (e - max (e - 52) (- 1074)) * f64_ulp e"
    by (simp add: f64_ulp_def pow2_add [symmetric])
  then show ?thesis using pow2_int [of "e - max (e - 52) (- 1074)"] assms f64_ulp_pos [of e] by auto
qed

lemma round_pos_mono:
  assumes "p \<le> q"
  shows "round_pos p \<le> round_pos q"
proof (cases "0 < p")
  case False
  have "0 \<le> round_even (q / f64_ulp (rat_exp q))" if "0 < q"
    using that f64_ulp_pos [of "rat_exp q"] by (intro round_even_ge) (simp add: zero_le_divide_iff)
  then have "0 \<le> round_pos q" by (simp add: round_pos_def Let_def)
  then show ?thesis using False by (simp add: round_pos_def)
next
  case True
  then have q: "0 < q" using assms by simp
  let ?e = "rat_exp p" and ?e' = "rat_exp q"
  have e: "?e \<le> ?e'" using rat_exp_mono True assms by simp
  show ?thesis
  proof (cases "f64_ulp ?e = f64_ulp ?e'")
    case same: True
    have "round_even (p / f64_ulp ?e') \<le> round_even (q / f64_ulp ?e')"
      using assms by (intro round_even_mono divide_right_mono) simp_all
    then show ?thesis using True q same by (simp add: round_pos_def Let_def mult_right_mono)
  next
    case False
    have "?e \<noteq> ?e'" using False by auto
    moreover have "- 1074 \<le> ?e'"
    proof (rule ccontr)
      assume "\<not> - 1074 \<le> ?e'"
      then have "f64_ulp ?e = f64_ulp ?e'" using e by (simp add: f64_ulp_def max_def)
      then show False using False by simp
    qed
    ultimately have lt: "?e < ?e'" "- 1074 \<le> ?e'" using e by simp_all
    obtain i where i: "pow2 ?e' / f64_ulp ?e = of_int i" using pow2_over_ulp [OF lt] by blast
    obtain i' where i': "pow2 ?e' / f64_ulp ?e' = of_int i'" using pow2_over_own_ulp [OF lt(2)] by blast
    have "p \<le> pow2 ?e'" using rat_exp_bounds(2) [OF True] pow2_mono [of "?e + 1" ?e'] lt(1) by simp
    then have "p / f64_ulp ?e \<le> of_int i" unfolding i [symmetric] by (intro divide_right_mono) simp_all
    then have "round_pos p \<le> of_int i * f64_ulp ?e"
      using True by (simp add: round_pos_def Let_def round_even_le mult_right_mono)
    also have "\<dots> = pow2 ?e'" unfolding i [symmetric] by simp
    also have "\<dots> = of_int i' * f64_ulp ?e'" unfolding i' [symmetric] by simp
    also have "\<dots> \<le> round_pos q"
    proof -
      have "of_int i' \<le> q / f64_ulp ?e'" unfolding i' [symmetric]
        using rat_exp_bounds(1) [OF q] by (intro divide_right_mono) simp_all
      then show ?thesis using q by (simp add: round_pos_def Let_def round_even_ge mult_right_mono)
    qed
    finally show ?thesis .
  qed
qed

text \<open>A positive value that is a whole number of its own units is exact.\<close>

lemma round_pos_exact:
  assumes "0 < q" "q = of_int i * f64_ulp (rat_exp q)"
  shows "round_pos q = q"
proof -
  have "q / f64_ulp (rat_exp q) = of_int i" using assms(2) by (simp add: field_simps)
  then show ?thesis using assms by (simp add: round_pos_def Let_def)
qed

lemma round_pos_int:
  assumes "0 \<le> i" "i \<le> 2 ^ 53"
  shows "round_pos (of_int i) = of_int i"
proof (cases "i = 0 \<or> i = 2 ^ 53")
  case False
  then have i: "0 < i" "i < 2 ^ 53" using assms by auto
  let ?e = "rat_exp (of_int i)"
  have "pow2 ?e \<le> of_int i" using rat_exp_bounds(1) [of "of_int i"] i by simp
  also have "(of_int i :: rat) < pow2 53" using i(2) by (simp add: pow2_nat)
  finally have e: "?e < 53" by (rule pow2_less_imp)
  have "pow2 0 < pow2 (?e + 1)"
    using rat_exp_bounds(2) [of "of_int i"] i by (simp add: pow2_def)
  then have "0 < ?e + 1" by (rule pow2_less_imp)
  then have u: "f64_ulp ?e * pow2 (52 - ?e) = 1" using e by (simp add: f64_ulp_def pow2_add [symmetric] pow2_def)
  obtain k where "pow2 (52 - ?e) = of_int k" using pow2_int [of "52 - ?e"] e by auto
  then have "(of_int i :: rat) = of_int (i * k) * f64_ulp ?e" using u by (simp add: algebra_simps)
  then show ?thesis using i by (intro round_pos_exact [where i = "i * k"]) simp_all
next
  case True
  moreover have "round_pos (2 ^ 53) = 2 ^ 53"
  proof -
    have b: "pow2 (rat_exp (2 ^ 53)) \<le> 2 ^ 53" "2 ^ 53 < pow2 (rat_exp (2 ^ 53) + 1)"
      using rat_exp_bounds [of "2 ^ 53"] by simp_all
    have "pow2 (rat_exp (2 ^ 53)) < pow2 54" "pow2 53 < pow2 (rat_exp (2 ^ 53) + 1)"
      using b by (simp_all add: pow2_def [of 54] pow2_def [of 53])
    from pow2_less_imp [OF this(1)] pow2_less_imp [OF this(2)] have "rat_exp (2 ^ 53) = 53" by linarith
    then show ?thesis by (intro round_pos_exact [where i = "2 ^ 52"]) (simp_all add: f64_ulp_def pow2_def)
  qed
  ultimately show ?thesis by (auto simp: round_pos_def)
qed

lemma f64_round_mono_Fin:
  assumes "f64_round p = Fin a" "f64_round q = Fin b" "p \<le> q"
  shows "a \<le> b"
proof -
  have nn: "0 \<le> round_pos x" for x using round_pos_mono [of "min 0 x" x] by (simp add: round_pos_def)
  have "0 \<le> p \<Longrightarrow> round_pos p \<le> round_pos q" "q < 0 \<Longrightarrow> round_pos (- q) \<le> round_pos (- p)"
    using assms(3) by (auto intro: round_pos_mono)
  then show ?thesis
    using assms nn [of q] nn [of "- p"] by (auto simp: f64_round_def Let_def split: if_splits)
qed

lemma f64_round_int: "\<bar>i\<bar> \<le> 2 ^ 53 \<Longrightarrow> f64_round (of_int i) = Fin (of_int i)"
proof -
  assume i: "\<bar>i\<bar> \<le> 2 ^ 53"
  have "(of_int \<bar>i\<bar> :: rat) \<le> 2 ^ 53" using i by (metis of_int_le_iff of_int_numeral of_int_power)
  moreover have "(2 :: rat) ^ 53 < pow2 1024" using pow2_mono [of 54 1024] by (simp add: pow2_def [of 54])
  ultimately have "\<not> pow2 1024 \<le> (of_int \<bar>i\<bar> :: rat)" by linarith
  moreover have "round_pos (of_int \<bar>i\<bar>) = of_int \<bar>i\<bar>" using i by (intro round_pos_int) simp_all
  ultimately show ?thesis by (auto simp: f64_round_def Let_def abs_if split: if_splits)
qed

lemma f64_round_finite:
  assumes "\<bar>q\<bar> \<le> 2 ^ 53"
  shows "\<exists>a. f64_round q = Fin a \<and> \<bar>a\<bar> \<le> 2 ^ 53"
proof -
  have "round_pos (2 ^ 53) = 2 ^ 53" using round_pos_int [of "2 ^ 53"] by simp
  then have r: "round_pos x \<le> 2 ^ 53" if "x \<le> 2 ^ 53" for x using round_pos_mono [OF that] by simp
  have nn: "0 \<le> round_pos x" for x using round_pos_mono [of "min 0 x" x] by (simp add: round_pos_def)
  have big: "(2 :: rat) ^ 53 < pow2 1024" using pow2_mono [of 54 1024] by (simp add: pow2_def [of 54])
  have "\<not> pow2 1024 \<le> round_pos x \<and> \<bar>round_pos x\<bar> \<le> 2 ^ 53" if "x \<le> 2 ^ 53" for x
    using r [OF that] nn [of x] big by (simp only: abs_of_nonneg not_le simp_thms)
  from this [of q] this [of "- q"] show ?thesis
    using assms by (simp add: f64_round_def Let_def abs_le_iff)
qed

text \<open>The result of rounding is within half a unit.\<close>

lemma f64_round_error:
  assumes "0 \<le> q" "q < pow2 (k + 1)" "f64_round q = Fin r"
  shows "\<bar>r - q\<bar> \<le> f64_ulp k / 2"
proof (cases "q = 0")
  case True
  then have "r = 0" using assms(3) by (auto simp: f64_round_def round_pos_def Let_def split: if_splits)
  then show ?thesis using True by simp
next
  case False
  then have q: "0 < q" using assms(1) by simp
  let ?u = "f64_ulp (rat_exp q)"
  have r: "r = of_int (round_even (q / ?u)) * ?u"
    using assms(3) q by (auto simp: f64_round_def round_pos_def Let_def split: if_splits)
  have "pow2 (rat_exp q) < pow2 (k + 1)" using rat_exp_bounds(1) [OF q] assms(2) by simp
  then have "rat_exp q < k + 1" by (rule pow2_less_imp)
  then have u: "?u \<le> f64_ulp k" unfolding f64_ulp_def by (intro pow2_mono) simp
  have "\<bar>r - q\<bar> = \<bar>(of_int (round_even (q / ?u)) - q / ?u) * ?u\<bar>" by (simp add: r left_diff_distrib)
  also have "\<dots> \<le> 1 / 2 * ?u"
    unfolding abs_mult using round_even_near [of "q / ?u"] by (simp add: mult_right_mono)
  finally show ?thesis using u by simp
qed

section \<open>What computing with rounded values needs\<close>

text \<open>
  Percentages are computed as rounded quotients. All that their bounds need of the rounding is
  that it is monotone, exact on the integers up to \<open>2^53\<close>, and finite between them.
\<close>

locale rounding =
  fixes rnd :: "rat \<Rightarrow> f64"
  assumes rnd_mono: "rnd p = Fin a \<Longrightarrow> rnd q = Fin b \<Longrightarrow> p \<le> q \<Longrightarrow> a \<le> b"
    and rnd_int: "\<bar>i\<bar> \<le> 2 ^ 53 \<Longrightarrow> rnd (of_int i) = Fin (of_int i)"
    and rnd_finite: "\<bar>q\<bar> \<le> 2 ^ 53 \<Longrightarrow> \<exists>a. rnd q = Fin a"
begin

lemma rnd_between:
  assumes "of_int i \<le> q" "q \<le> of_int j" "\<bar>i\<bar> \<le> 2 ^ 53" "\<bar>j\<bar> \<le> 2 ^ 53"
  shows "\<exists>a. rnd q = Fin a \<and> of_int i \<le> a \<and> a \<le> of_int j"
proof -
  have "(of_int \<bar>i\<bar> :: rat) \<le> of_int (2 ^ 53)" "(of_int \<bar>j\<bar> :: rat) \<le> of_int (2 ^ 53)"
    using assms(3,4) by (simp_all only: of_int_le_iff)
  then have "\<bar>q\<bar> \<le> 2 ^ 53" using assms(1,2) by (simp add: abs_le_iff)
  then obtain a where a: "rnd q = Fin a" using rnd_finite by blast
  then show ?thesis
    using rnd_mono [OF rnd_int [OF assms(3)] a assms(1)] rnd_mono [OF a rnd_int [OF assms(4)] assms(2)] by blast
qed

text \<open>A share of a whole is rounded to something between nothing and the whole.\<close>

lemma rnd_share:
  assumes "0 \<le> part" "part \<le> whole" "0 < whole" "0 \<le> k" "k \<le> 2 ^ 53"
  shows "\<exists>a. rnd (part / whole * of_int k) = Fin a \<and> 0 \<le> a \<and> a \<le> of_int k"
proof -
  define s where "s = part / whole"
  have "0 \<le> s" "s \<le> 1" "(0 :: rat) \<le> of_int k" using assms by (simp_all add: s_def)
  then have "of_int 0 \<le> s * of_int k" "s * of_int k \<le> of_int k" by (simp_all add: mult_left_le_one_le)
  then show ?thesis using rnd_between [of 0 "s * of_int k" k] assms(4,5) by (simp add: s_def)
qed

end

interpretation ieee: rounding f64_round
  using f64_round_finite by unfold_locales (blast intro: f64_round_mono_Fin f64_round_int)+

lemma f_of_int_exact: "\<bar>i\<bar> \<le> 2 ^ 53 \<Longrightarrow> f_of_int i = Fin (of_int i)"
  by (simp add: f_of_int_def f64_round_int)

lemma f_of_u64_exact: "uint w \<le> 2 ^ 53 \<Longrightarrow> f_of_u64 w = Fin (of_int (uint w))"
  by (simp add: f_of_u64_def f_of_int_exact)

end
