(* ===== verification/Cpumon.thy ===== *)
theory Cpumon
  imports Go_Float
begin

text \<open>
  \<open>pkg/cpumon/cpumon.go\<close>: the parsers of \<open>/proc/stat\<close>, \<open>/proc/<pid>/stat\<close> and
  \<open>/proc/meminfo\<close>, the percentages of \<open>Monitor\<close>, and the process monitor with its averages.
  File contents, tick times, the answers of the system and the page size are arguments; of the log
  only the numbers of its lines are kept.
\<close>

section \<open>The text functions of bytes and strconv\<close>

text \<open>\<open>bytes.Fields\<close> on ASCII text: maximal runs of bytes that are not white space.\<close>

definition is_space :: "byte \<Rightarrow> bool" where
  "is_space b \<longleftrightarrow> b = 9 \<or> b = 10 \<or> b = 11 \<or> b = 12 \<or> b = 13 \<or> b = 32"

fun fields_from :: "bytes \<Rightarrow> bytes \<Rightarrow> bytes list" where
  "fields_from cur [] = (if cur = [] then [] else [cur])"
| "fields_from cur (b # bs) =
     (if is_space b then (if cur = [] then fields_from [] bs else cur # fields_from [] bs)
      else fields_from (cur @ [b]) bs)"

definition Fields :: "bytes \<Rightarrow> bytes list" where
  "Fields bs = fields_from [] bs"

text \<open>
  \<open>strconv.ParseUint(s, 10, 64)\<close> with its error ignored: zero for an empty text or a byte that
  is no digit, the largest value as soon as the number leaves the range.
\<close>

definition max_uint64 :: nat where "max_uint64 = 2 ^ 64 - 1"

fun parse_uint_loop :: "nat \<Rightarrow> bytes \<Rightarrow> nat" where
  "parse_uint_loop n [] = n"
| "parse_uint_loop n (c # cs) =
     (if \<not> (48 \<le> c \<and> c \<le> 57) then 0
      else if max_uint64 div 10 + 1 \<le> n then max_uint64
      else let n1 = n * 10 + (unat c - 48)
           in if max_uint64 < n1 then max_uint64 else parse_uint_loop n1 cs)"

definition ParseUint :: "bytes \<Rightarrow> u64" where
  "ParseUint s = of_nat (parse_uint_loop 0 s)"

definition LastIndexByte :: "bytes \<Rightarrow> byte \<Rightarrow> nat option" where
  "LastIndexByte bs b =
     (case filter (\<lambda>i. bs ! i = b) [0..<length bs] of [] \<Rightarrow> None | is \<Rightarrow> Some (last is))"

fun split_lines_from :: "bytes \<Rightarrow> bytes \<Rightarrow> bytes list" where
  "split_lines_from cur [] = [cur]"
| "split_lines_from cur (b # bs) =
     (if b = 10 then cur # split_lines_from [] bs else split_lines_from (cur @ [b]) bs)"

definition HasPrefix :: "bytes \<Rightarrow> bytes \<Rightarrow> bool" where
  "HasPrefix bs p \<longleftrightarrow> take (length p) bs = p"

text \<open>
  \<open>strconv.ParseFloat\<close> on plain digits; other notations are left to the argument \<open>other\<close>.
\<close>

definition ParseFloat :: "(bytes \<Rightarrow> f64) \<Rightarrow> bytes \<Rightarrow> f64" where
  "ParseFloat other s =
     (if s \<noteq> [] \<and> list_all (\<lambda>c. 48 \<le> c \<and> c \<le> 57) s
      then f_of_int (foldl (\<lambda>n c. n * 10 + (uint c - 48)) 0 s) else other s)"

section \<open>Parsers of /proc\<close>

definition field_uint :: "bytes list \<Rightarrow> nat \<Rightarrow> u64" where
  "field_uint flds i = (if length flds \<le> i then 0 else ParseUint (flds ! i))"

text \<open>\<open>readCPURaw\<close> on the bytes the read returned, at most the buffer.\<close>

definition readCPURaw :: "nat \<Rightarrow> bytes \<Rightarrow> u64 \<times> u64 \<times> u64" where
  "readCPURaw buflen content =
     (let flds = Fields (take buflen content); parse = field_uint flds;
          user = parse 1; nice = parse 2; system = parse 3; idle = parse 4; iowait = parse 5;
          irq = parse 6; softirq = parse 7; steal = parse 8;
          tot = user + nice + system + idle + iowait + irq + softirq + steal;
          work = tot - idle - iowait
      in (tot, work, steal))"

text \<open>The loop of \<open>readMemRaw\<close>; a matching line without a value panics.\<close>

fun mem_lines :: "(bytes \<Rightarrow> f64) \<Rightarrow> bytes list \<Rightarrow> f64 \<Rightarrow> f64 \<Rightarrow> (f64 \<times> f64) go" where
  "mem_lines other [] tot avail = Ret (tot, avail)"
| "mem_lines other (line # lines) tot avail =
     go_bind
       (if HasPrefix line (str_bytes ''MemTotal:'')
        then (if length (Fields line) \<le> 1 then Panic IndexOutOfRange
              else Ret (ParseFloat other (Fields line ! 1), avail))
        else if HasPrefix line (str_bytes ''MemAvailable:'')
        then (if length (Fields line) \<le> 1 then Panic IndexOutOfRange
              else Ret (tot, ParseFloat other (Fields line ! 1)))
        else Ret (tot, avail))
       (\<lambda>(tot', avail').
          if f_less (Fin 0) tot' \<and> f_less (Fin 0) avail' then Ret (tot', avail')
          else mem_lines other lines tot' avail')"

definition readMemRaw :: "(bytes \<Rightarrow> f64) \<Rightarrow> nat \<Rightarrow> bytes \<Rightarrow> f64 go" where
  "readMemRaw other buflen content =
     go_bind (mem_lines other (split_lines_from [] (take buflen content)) (Fin 0) (Fin 0)) (\<lambda>(tot, avail).
       if tot = Fin 0 then Ret (Fin 0)
       else Ret (f_mul (f_div (f_sub tot avail) tot) (Fin 100)))"

type_synonym io_error = string

definition readTotalJiffies :: "io_error + bytes \<Rightarrow> io_error + u64" where
  "readTotalJiffies file =
     (case file of
        Inl err \<Rightarrow> Inl err
      | Inr data \<Rightarrow>
          let flds = Fields data; parse = field_uint flds
          in if length flds < 8 then Inl ''unexpected /proc/stat format''
             else Inr (parse 1 + parse 2 + parse 3 + parse 4 + parse 5 + parse 6 + parse 7 + parse 8))"

definition readProcStat :: "u64 \<Rightarrow> io_error + bytes \<Rightarrow> io_error + (u64 \<times> u64)" where
  "readProcStat pagesize file =
     (case file of
        Inl err \<Rightarrow> Inl err
      | Inr data \<Rightarrow>
          (case LastIndexByte data 41 of
             None \<Rightarrow> Inl ''invalid stat format''
           | Some endComm \<Rightarrow>
               if length data \<le> endComm + 2 then Inl ''invalid stat format''
               else
                 let parts = Fields (drop (endComm + 2) data)
                 in if length parts < 22 then Inl ''unexpected stat flds count''
                    else Inr (ParseUint (parts ! 11) + ParseUint (parts ! 12),
                              ParseUint (parts ! 21) * pagesize)))"

text \<open>The two files a sample reads, in the order of the reads.\<close>

record proc_files =
  pf_stat :: "io_error + bytes"
  pf_pid_stat :: "io_error + bytes"

definition readProcAndTotal :: "u64 \<Rightarrow> proc_files \<Rightarrow> io_error + (u64 \<times> u64 \<times> u64)" where
  "readProcAndTotal pagesize fs =
     (case readTotalJiffies (pf_stat fs) of
        Inl err \<Rightarrow> Inl err
      | Inr tot \<Rightarrow>
          (case readProcStat pagesize (pf_pid_stat fs) of
             Inl err \<Rightarrow> Inl err
           | Inr (proc, rss) \<Rightarrow> Inr (tot, proc, rss)))"

section \<open>The monitors\<close>

text \<open>One tick of \<open>Monitor\<close>: the new baseline and the numbers of the line.\<close>

definition usage_percent :: "u64 \<Rightarrow> u64 \<Rightarrow> f64" where
  "usage_percent part whole = f_mul (f_div (f_of_u64 part) (f_of_u64 whole)) (Fin 100)"

definition monitor_tick ::
  "(bytes \<Rightarrow> f64) \<Rightarrow> u64 \<times> u64 \<times> u64 \<Rightarrow> bytes \<Rightarrow> bytes \<Rightarrow> ((u64 \<times> u64 \<times> u64) \<times> f64 \<times> f64 \<times> f64) go" where
  "monitor_tick other prev stat meminfo =
     (let (prevTotal, prevWork, prevSteal) = prev;
          (currTotal, currWork, currSteal) = readCPURaw 2048 stat;
          totalDelta = currTotal - prevTotal;
          pos = f_less (Fin 0) (f_of_u64 totalDelta);
          cpuPercent = (if pos then usage_percent (currWork - prevWork) totalDelta else Fin 0);
          stealPercent = (if pos then usage_percent (currSteal - prevSteal) totalDelta else Fin 0)
      in go_bind (readMemRaw other 2048 meminfo) (\<lambda>memPercent.
           Ret ((currTotal, currWork, currSteal), cpuPercent, stealPercent, memPercent)))"

text \<open>
  \<open>Monitor\<close>: the name of the log, what opening the files answers, and the loop on its ticks, each
  with the contents of the two files and the answer of the writer. The lines are kept as their
  numbers; \<open>stamp\<close> is the formatted time and \<open>Dir\<close> is \<open>filepath.Dir\<close>.
\<close>

type_synonym monitor_row = "gotime \<times> f64 \<times> f64 \<times> f64"

record monitor_os =
  mo_mkdir :: "io_error option"
  mo_log :: "io_error option"
  mo_stat :: "io_error option"
  mo_meminfo :: "io_error option"

fun monitor_loop ::
  "(bytes \<Rightarrow> f64) \<Rightarrow> u64 \<times> u64 \<times> u64 \<Rightarrow> (gotime \<times> bytes \<times> bytes \<times> io_error option) list \<Rightarrow> monitor_row list \<Rightarrow>
    (io_error option \<times> monitor_row list) go" where
  "monitor_loop other prev [] rows = Ret (None, rows)"
| "monitor_loop other prev ((t, stat, meminfo, write_err) # ticks) rows =
     go_bind (monitor_tick other prev stat meminfo) (\<lambda>(prev', cpu, steal, mem).
       case write_err of
         Some err \<Rightarrow> Ret (Some err, rows)
       | None \<Rightarrow> monitor_loop other prev' ticks (rows @ [(t, cpu, steal, mem)]))"

definition monitor_path :: "string \<Rightarrow> string \<Rightarrow> string" where
  "monitor_path stamp logPath = (if logPath = [] then ''cpu_'' @ stamp @ ''.log'' else logPath)"

definition Monitor ::
  "(string \<Rightarrow> string) \<Rightarrow> (bytes \<Rightarrow> f64) \<Rightarrow> monitor_os \<Rightarrow> string \<Rightarrow> string \<Rightarrow> bytes \<Rightarrow>
    (gotime \<times> bytes \<times> bytes \<times> io_error option) list \<Rightarrow> (string \<times> io_error option \<times> monitor_row list) go" where
  "Monitor Dir other os stamp logPath stat0 ticks =
     (let path = monitor_path stamp logPath; dir = Dir path;
          mkdir = (if dir \<noteq> ''.'' \<and> dir \<noteq> [] then mo_mkdir os else None)
      in case [e. Some e \<leftarrow> [mkdir, mo_log os, mo_stat os, mo_meminfo os]] of
           err # _ \<Rightarrow> Ret ([], Some err, [])
         | [] \<Rightarrow> go_bind (monitor_loop other (readCPURaw 2048 stat0) ticks []) (\<lambda>(err, rows). Ret (path, err, rows)))"

text \<open>The default of the interval, in both monitors.\<close>

definition default_interval :: "duration \<Rightarrow> duration" where
  "default_interval interval = (if interval \<le> 0 then 100 * Millisecond else interval)"

record Result =
  Timestamp :: gotime
  CpuUsage :: f64
  MemUsage :: f64
  StealPerc :: f64

record ProcessMonitor =
  pm_pid :: int
  pm_interval :: duration
  samples :: "Result list"
  lastTotal :: u64
  lastProc :: u64

definition StartProcessMonitor :: "u64 \<Rightarrow> proc_files \<Rightarrow> int \<Rightarrow> duration \<Rightarrow> io_error + ProcessMonitor" where
  "StartProcessMonitor pagesize fs pid interval =
     (if pid \<le> 0 then Inl ''invalid pid''
      else case readProcAndTotal pagesize fs of
             Inl err \<Rightarrow> Inl err
           | Inr (tot, proc, _) \<Rightarrow>
               Inr \<lparr>pm_pid = pid, pm_interval = default_interval interval,
                    samples = [], lastTotal = tot, lastProc = proc\<rparr>)"

text \<open>The loop on its ticks; a failed read ends it, and so does the context (no more ticks).\<close>

definition pm_sample :: "u64 \<Rightarrow> gotime \<Rightarrow> u64 \<times> u64 \<times> u64 \<Rightarrow> ProcessMonitor \<Rightarrow> ProcessMonitor" where
  "pm_sample pagesize t raw pm =
     (let (tot, proc, rssBytes) = raw;
          deltaTotal = f_of_u64 (tot - lastTotal pm);
          deltaProc = f_of_u64 (proc - lastProc pm);
          cpuPercent = (if f_less (Fin 0) deltaTotal then f_mul (f_div deltaProc deltaTotal) (Fin 100) else Fin 0);
          memMB = f_div (f_of_u64 rssBytes) (Fin (1024 * 1024))
      in pm\<lparr>lastTotal := tot, lastProc := proc,
            samples := samples pm @ [\<lparr>Timestamp = t, CpuUsage = cpuPercent, MemUsage = memMB, StealPerc = Fin 0\<rparr>]\<rparr>)"

fun pm_loop :: "u64 \<Rightarrow> (gotime \<times> proc_files) list \<Rightarrow> ProcessMonitor \<Rightarrow> ProcessMonitor" where
  "pm_loop pagesize [] pm = pm"
| "pm_loop pagesize ((t, fs) # ticks) pm =
     (case readProcAndTotal pagesize fs of
        Inl _ \<Rightarrow> pm
      | Inr raw \<Rightarrow> pm_loop pagesize ticks (pm_sample pagesize t raw pm))"

definition in_window :: "gotime \<Rightarrow> gotime \<Rightarrow> Result \<Rightarrow> bool" where
  "in_window start end s \<longleftrightarrow>
     (time_equal (Timestamp s) start \<or> time_after (Timestamp s) start) \<and>
     (time_before (Timestamp s) end \<or> time_equal (Timestamp s) end)"

definition AverageBetween :: "ProcessMonitor \<Rightarrow> gotime \<Rightarrow> gotime \<Rightarrow> f64 \<times> f64" where
  "AverageBetween pm start end =
     (if time_before end start then (Fin 0, Fin 0)
      else
        let (cpu, mem, count) = foldl (\<lambda>(cpu, mem, count) s.
              if in_window start end s then (f_add cpu (CpuUsage s), f_add mem (MemUsage s), count + 1)
              else (cpu, mem, count)) (Fin 0, Fin 0, 0 :: int) (samples pm)
        in if count = 0 then (Fin 0, Fin 0)
           else (f_div cpu (f_of_int count), f_div mem (f_of_int count)))"

section \<open>Correctness\<close>

text \<open>Words separated by single spaces come back as they are.\<close>

definition word_ok :: "bytes \<Rightarrow> bool" where
  "word_ok w \<longleftrightarrow> w \<noteq> [] \<and> (\<forall>b \<in> set w. \<not> is_space b)"

fun unwords :: "bytes list \<Rightarrow> bytes" where
  "unwords [] = []"
| "unwords (w # ws) = w @ 32 # unwords ws"

lemma fields_from_word: "\<forall>b \<in> set w. \<not> is_space b \<Longrightarrow> fields_from cur (w @ bs) = fields_from (cur @ w) bs"
  by (induction w arbitrary: cur) auto

lemma Fields_unwords:
  assumes "\<forall>w \<in> set ws. word_ok w"
  shows "Fields (unwords ws @ [10]) = ws"
proof -
  have "is_space 32" "is_space 10" by (simp_all add: is_space_def)
  then show ?thesis
    using assms by (induction ws) (auto simp: Fields_def word_ok_def fields_from_word)
qed

lemma LastIndexByte_last:
  assumes "b \<notin> set ys"
  shows "LastIndexByte (xs @ b # ys) b = Some (length xs)"
proof -
  let ?bs = "xs @ b # ys" and ?n = "length xs"
  have len: "length ?bs = ?n + Suc (length ys)" by simp
  have "[0..<length ?bs] = [0..<?n] @ [?n..<length ?bs]"
    unfolding len by (rule upt_add_eq_append) simp
  also have "[?n..<length ?bs] = ?n # [Suc ?n..<length ?bs]" by (rule upt_conv_Cons) simp
  finally have split: "[0..<length ?bs] = [0..<?n] @ ?n # [Suc ?n..<length ?bs]" .
  have "?bs ! i \<noteq> b" if "Suc ?n \<le> i" "i < length ?bs" for i
  proof -
    from le_Suc_ex [OF that(1)] obtain j where j: "i = Suc ?n + j" ..
    have "?bs ! i = ys ! j" unfolding j by (simp add: nth_append)
    moreover have "j < length ys" using that(2) unfolding j len by linarith
    ultimately show ?thesis using assms by (metis nth_mem)
  qed
  then have "filter (\<lambda>i. ?bs ! i = b) [Suc ?n..<length ?bs] = []" by (simp add: filter_empty_conv del: upt_Suc)
  then have "filter (\<lambda>i. ?bs ! i = b) [0..<length ?bs] = filter (\<lambda>i. ?bs ! i = b) [0..<?n] @ [?n]"
    unfolding split by (simp del: upt_Suc)
  moreover have "(case zs @ [k] of [] \<Rightarrow> None | is \<Rightarrow> Some (last is)) = Some k" for zs and k :: nat
    by (cases zs) auto
  ultimately show ?thesis by (simp only: LastIndexByte_def)
qed

text \<open>Parsing a decimal that fits gives the number; one that does not gives the largest value.\<close>

fun digits_value :: "nat \<Rightarrow> bytes \<Rightarrow> nat" where
  "digits_value n [] = n"
| "digits_value n (c # cs) = digits_value (n * 10 + (unat c - 48)) cs"

lemma digits_value_ge: "n \<le> digits_value n cs"
proof (induction cs arbitrary: n)
  case (Cons c cs)
  have "n \<le> n * 10 + (unat c - 48)" by simp
  also have "\<dots> \<le> digits_value (n * 10 + (unat c - 48)) cs" by (rule Cons.IH)
  finally show ?case by simp
qed simp

lemma parse_uint_loop_digits:
  assumes "\<forall>c \<in> set cs. 48 \<le> c \<and> c \<le> 57" "n \<le> max_uint64"
  shows "parse_uint_loop n cs = min max_uint64 (digits_value n cs)"
  using assms
proof (induction cs arbitrary: n)
  case (Cons c cs)
  let ?n1 = "n * 10 + (unat c - 48)"
  have c: "48 \<le> unat c" "48 \<le> c \<and> c \<le> 57" using Cons.prems(1) by (auto simp: word_le_nat_alt)
  have ge: "?n1 \<le> digits_value ?n1 cs" by (rule digits_value_ge)
  show ?case
  proof (cases "max_uint64 < ?n1")
    case True
    then have "min max_uint64 (digits_value n (c # cs)) = max_uint64" using ge by simp
    then show ?thesis using True c by (simp add: Let_def)
  next
    case False
    then have "\<not> max_uint64 div 10 + 1 \<le> n" by (simp add: max_uint64_def)
    then show ?thesis using False Cons c by (simp add: Let_def)
  qed
qed simp

lemma ParseUint_digits:
  assumes "\<forall>c \<in> set s. 48 \<le> c \<and> c \<le> 57"
  shows "ParseUint s = of_nat (min max_uint64 (digits_value 0 s))"
  using parse_uint_loop_digits [OF assms, of 0] by (simp add: ParseUint_def)

text \<open>Shares of a whole, as both monitors compute them, lie between 0 and 100.\<close>

lemma usage_percent_bounds:
  assumes "part \<le> whole" "0 < whole" "uint whole \<le> 2 ^ 53"
  shows "\<exists>a. usage_percent part whole = Fin a \<and> 0 \<le> a \<and> a \<le> 100"
proof -
  define p w where "p = uint part" and "w = uint whole"
  have p: "0 \<le> p" "p \<le> w" "0 < w" "w \<le> 2 ^ 53"
    using assms by (simp_all add: word_le_def word_less_def p_def w_def)
  then have "uint part \<le> 2 ^ 53" "uint whole \<le> 2 ^ 53" by (simp_all add: p_def w_def)
  then have f: "f_of_u64 part = Fin (of_int p)" "f_of_u64 whole = Fin (of_int w)"
    using f_of_u64_exact unfolding p_def w_def by blast+
  obtain s where s: "f64_round (of_int p / of_int w) = Fin s" "0 \<le> s" "s \<le> 1"
    using ieee.rnd_share [of "of_int p" "of_int w" 1] p by auto
  obtain a where "f64_round (s * 100) = Fin a" "0 \<le> a" "a \<le> 100"
    using ieee.rnd_share [of s 1 100] s by auto
  then show ?thesis using s(1) f p(3) by (simp add: usage_percent_def)
qed

section \<open>Properties\<close>

text \<open>
  C38. \<open>readProcStat\<close> finds the right fields whatever the command name is, spaces and closing
  parentheses included: user and system time are the twelfth and thirteenth word after the
  last parenthesis, the resident pages the twenty-second.
\<close>

theorem readProcStat_any_command:
  assumes "\<forall>w \<in> set parts. word_ok w \<and> 41 \<notin> set w" "22 \<le> length parts"
  shows "readProcStat pagesize (Inr (pid @ [32, 40] @ comm @ [41, 32] @ unwords parts @ [10])) =
    Inr (ParseUint (parts ! 11) + ParseUint (parts ! 12), ParseUint (parts ! 21) * pagesize)"
proof -
  let ?pre = "pid @ [32, 40] @ comm" and ?post = "unwords parts @ [10]"
  have no: "41 \<notin> set (32 # ?post)" using assms(1) by (induction parts) auto
  have "LastIndexByte (?pre @ 41 # 32 # ?post) 41 = Some (length ?pre)" by (rule LastIndexByte_last [OF no])
  moreover have "drop (length (?pre @ [41, 32])) ((?pre @ [41, 32]) @ ?post) = ?post"
    by (simp only: append_eq_conv_conj [THEN iffD1, OF refl, THEN conjunct2, symmetric])
  then have "drop (length ?pre + 2) (?pre @ 41 # 32 # ?post) = ?post" by simp
  moreover have "Fields ?post = parts" using assms(1) by (intro Fields_unwords) auto
  ultimately show ?thesis using assms(2) by (simp add: readProcStat_def Let_def)
qed

theorem readProcStat_any_command_witness:
  "readProcStat 4096 (Inr ([49] @ [32, 40] @ [97, 41, 32, 40] @ [41, 32] @
     unwords (replicate 11 [48] @ [[49, 50], [51]] @ replicate 8 [48] @ [[55]]) @ [10])) = Inr (15, 28672)"
  using readProcStat_any_command [of "replicate 11 [48] @ [[49, 50], [51]] @ replicate 8 [48] @ [[55]]" 4096 "[49]" "[97, 41, 32, 40]"]
  by (simp add: word_ok_def is_space_def nth_append ParseUint_def max_uint64_def)

definition cpu_counter :: "nat \<Rightarrow> bytes \<Rightarrow> nat \<Rightarrow> nat" where
  "cpu_counter n content i = unat (field_uint (Fields (take n content)) i)"

text \<open>
  \<open>readCPURaw\<close> splits the time of the first line: when the eight counters add up without
  overflow, the total is their sum and the work is the total less the two idle counters.
\<close>

lemma readCPURaw_split:
  assumes "c = cpu_counter n content" "c 1 + c 2 + c 3 + c 4 + c 5 + c 6 + c 7 + c 8 < 2 ^ 64"
    and "readCPURaw n content = (tot, work, steal)"
  shows "unat tot = c 1 + c 2 + c 3 + c 4 + c 5 + c 6 + c 7 + c 8 \<and>
    unat work = c 1 + c 2 + c 3 + c 6 + c 7 + c 8 \<and> unat steal = c 8 \<and> work \<le> tot"
proof -
  let ?f = "field_uint (Fields (take n content))"
  have eq: "tot = ?f 1 + ?f 2 + ?f 3 + ?f 4 + ?f 5 + ?f 6 + ?f 7 + ?f 8"
      "work = ?f 1 + ?f 2 + ?f 3 + ?f 6 + ?f 7 + ?f 8" "steal = ?f 8"
    using assms(3) by (auto simp: readCPURaw_def Let_def)
  have c: "c i = unat (?f i)" for i by (simp add: assms(1) cpu_counter_def)
  have "unat tot = c 1 + c 2 + c 3 + c 4 + c 5 + c 6 + c 7 + c 8"
    unfolding eq(1) using assms(2) by (simp add: c unat_word_ariths)
  moreover have "unat work = c 1 + c 2 + c 3 + c 6 + c 7 + c 8"
    unfolding eq(2) using assms(2) by (simp add: c unat_word_ariths)
  ultimately show ?thesis using eq(3) by (simp add: c word_le_nat_alt)
qed

definition demo_stat :: "string \<Rightarrow> bytes" where
  "demo_stat ticks = str_bytes ''cpu  '' @ str_bytes ticks @ [10]"

lemmas proc_eval = demo_stat_def str_bytes_def readCPURaw_def Fields_def is_space_def field_uint_def ParseUint_def
  max_uint64_def Let_def

text \<open>The counters of \<open>/proc\<close> as the kernel keeps them: growing, no process faster than the total.\<close>

fun counters_ok :: "u64 \<Rightarrow> u64 \<Rightarrow> u64 \<Rightarrow> (gotime \<times> proc_files) list \<Rightarrow> bool" where
  "counters_ok pagesize tot0 proc0 [] = True"
| "counters_ok pagesize tot0 proc0 ((t, fs) # ticks) =
     (case readProcAndTotal pagesize fs of
        Inl _ \<Rightarrow> True
      | Inr (tot, proc, rss) \<Rightarrow>
          proc - proc0 \<le> tot - tot0 \<and> uint (tot - tot0) \<le> 2 ^ 53 \<and> counters_ok pagesize tot proc ticks)"

lemma f_less_zero_u64: "uint w \<le> 2 ^ 53 \<Longrightarrow> f_less (Fin 0) (f_of_u64 w) \<longleftrightarrow> 0 < w"
  by (simp only: f_of_u64_exact f_less.simps of_int_0_less_iff word_less_def unsigned_0)

lemma pm_sample_bounds:
  assumes "proc - lastProc pm \<le> tot - lastTotal pm" "uint (tot - lastTotal pm) \<le> 2 ^ 53"
  shows "\<exists>s. samples (pm_sample pagesize t (tot, proc, rss) pm) = samples pm @ [s] \<and>
    (\<exists>a. CpuUsage s = Fin a \<and> 0 \<le> a \<and> a \<le> 100)"
proof -
  have "\<exists>a. usage_percent (proc - lastProc pm) (tot - lastTotal pm) = Fin a \<and> 0 \<le> a \<and> a \<le> 100"
    if "0 < tot - lastTotal pm" using usage_percent_bounds [OF assms(1) that assms(2)] .
  then show ?thesis
    using f_less_zero_u64 [OF assms(2)] by (auto simp: pm_sample_def usage_percent_def Let_def)
qed

text \<open>
  C37. Every CPU value the process monitor records lies between 0 and 100, if between two
  readings the process never uses more jiffies than the whole machine.
\<close>

theorem process_usage_bounded:
  assumes "StartProcessMonitor pagesize fs pid interval = Inr pm"
    and "counters_ok pagesize (lastTotal pm) (lastProc pm) ticks" "s \<in> set (samples (pm_loop pagesize ticks pm))"
  shows "\<exists>a. CpuUsage s = Fin a \<and> 0 \<le> a \<and> a \<le> 100"
proof -
  have "\<forall>s \<in> set (samples pm). \<exists>a. CpuUsage s = Fin a \<and> 0 \<le> a \<and> a \<le> 100"
    using assms(1) by (auto simp: StartProcessMonitor_def split: if_splits sum.splits)
  then show ?thesis using assms(2,3)
  proof (induction pagesize ticks pm rule: pm_loop.induct)
    case (1 pagesize pm)
    then show ?case by simp
  next
    case (2 pagesize t fs ticks pm)
    show ?case
    proof (cases "readProcAndTotal pagesize fs")
      case (Inl err)
      then show ?thesis using 2 by simp
    next
      case (Inr raw)
      obtain tot proc rss where raw: "raw = (tot, proc, rss)" by (cases raw)
      let ?pm = "pm_sample pagesize t raw pm"
      have l: "lastTotal ?pm = tot" "lastProc ?pm = proc" by (simp_all add: raw pm_sample_def Let_def)
      have "\<forall>s \<in> set (samples ?pm). \<exists>a. CpuUsage s = Fin a \<and> 0 \<le> a \<and> a \<le> 100"
        using pm_sample_bounds [of proc pm tot pagesize t rss] 2(2,3) Inr raw by force
      then show ?thesis using 2(1) [OF Inr] 2(3,4) Inr raw l by simp
    qed
  qed
qed

definition demo_pid_stat :: "string \<Rightarrow> string \<Rightarrow> bytes" where
  "demo_pid_stat ut st = str_bytes ''7 (srv) S 1 1 1 0 -1 0 0 0 0 0 '' @ str_bytes ut @ [32] @ str_bytes st @
     str_bytes '' 0 0 20 0 1 0 99 1000 512 0'' @ [10]"

definition demo_files :: "string \<Rightarrow> string \<Rightarrow> string \<Rightarrow> proc_files" where
  "demo_files ticks ut st = \<lparr>pf_stat = Inr (demo_stat ticks), pf_pid_stat = Inr (demo_pid_stat ut st)\<rparr>"

theorem process_usage_bounded_witness:
  "\<exists>pm s a. StartProcessMonitor 4096 (demo_files ''10 2 3 40 5 6 7 8'' ''4'' ''1'') 7 0 = Inr pm \<and>
    samples (pm_loop 4096 [(\<lparr>wall = 0, mono = 100\<rparr>, demo_files ''20 2 3 60 5 6 7 8'' ''14'' ''1'')] pm) = [s] \<and>
    CpuUsage s = Fin a \<and> a \<le> 100"
proof -
  let ?fs = "demo_files ''10 2 3 40 5 6 7 8'' ''4'' ''1''"
    and ?ticks = "[(\<lparr>wall = 0, mono = 100\<rparr>, demo_files ''20 2 3 60 5 6 7 8'' ''14'' ''1'')]"
  have r: "readProcAndTotal 4096 ?fs = Inr (81, 5, 2097152)"
    "readProcAndTotal 4096 (demo_files ''20 2 3 60 5 6 7 8'' ''14'' ''1'') = Inr (111, 15, 2097152)" by (simp_all add: proc_eval demo_files_def demo_pid_stat_def readProcAndTotal_def readTotalJiffies_def readProcStat_def
        LastIndexByte_def upt_rec)
  obtain pm where pm: "StartProcessMonitor 4096 ?fs 7 0 = Inr pm" "lastTotal pm = 81" "lastProc pm = 5" "samples pm = []"
    by (simp add: StartProcessMonitor_def r)
  have ok: "counters_ok 4096 (lastTotal pm) (lastProc pm) ?ticks" by (simp add: r pm)
  obtain s where s: "samples (pm_loop 4096 ?ticks pm) = [s]" by (simp add: r pm pm_sample_def Let_def)
  have "\<exists>a. CpuUsage s = Fin a \<and> 0 \<le> a \<and> a \<le> 100"
    by (rule process_usage_bounded [OF pm(1) ok]) (simp only: s, simp)
  then show ?thesis using pm(1) s by blast
qed

text \<open>
  \<open>AverageBetween\<close> is the mean of the samples whose time lies in the closed interval, and
  zero when there is none or the interval is empty.
\<close>

lemma AverageBetween_mean:
  "AverageBetween pm start end =
    (let sel = filter (\<lambda>s. mono start \<le> mono (Timestamp s) \<and> mono (Timestamp s) \<le> mono end) (samples pm);
         n = f_of_int (int (length sel))
     in if mono end < mono start \<or> sel = [] then (Fin 0, Fin 0)
        else (f_div (foldl f_add (Fin 0) (map CpuUsage sel)) n, f_div (foldl f_add (Fin 0) (map MemUsage sel)) n))"
proof -
  have w: "in_window start end = (\<lambda>s. mono start \<le> mono (Timestamp s) \<and> mono (Timestamp s) \<le> mono end)"
    by (auto simp: in_window_def time_equal_def time_after_def time_before_def fun_eq_iff)
  have "foldl (\<lambda>(cpu, mem, count) s.
        if in_window start end s then (f_add cpu (CpuUsage s), f_add mem (MemUsage s), count + 1)
        else (cpu, mem, count)) (a, b, k) xs =
      (foldl f_add a (map CpuUsage (filter (in_window start end) xs)),
       foldl f_add b (map MemUsage (filter (in_window start end) xs)),
       k + int (length (filter (in_window start end) xs)))" for a b k xs
    by (induction xs arbitrary: a b k) auto
  then show ?thesis by (simp add: AverageBetween_def time_before_def w Let_def)
qed

end
