(* ===== verification/Loss_Stats.thy ===== *)
theory Loss_Stats
  imports Go_Float
begin

text \<open>
  The packet statistics that \<open>server/main.go\<close> and \<open>client/main.go\<close> both define: the tracer
  that counts sent and lost 1-RTT packets and forwards the events, the snapshot and the
  percentage.
\<close>

section \<open>Counting\<close>

record LossStats =
  ls_sent :: u64
  ls_lost :: u64

datatype packet_type = PacketType1RTT | OtherPacketType

datatype qlog_event = PacketLost packet_type | PacketSent packet_type | OtherEvent nat

text \<open>
  A recorder with the events its inner recorder, if any, was given and whether that is closed.
  The counters are shared: every trace and every recorder holds the same \<open>stats\<close> pointer, so the
  operations take the counters as a state of their own.
\<close>

record lossRecorder =
  rec_inner :: "qlog_event list option"
  rec_closed :: bool

record lossTrace =
  tr_inner :: "(string \<Rightarrow> bool) option"

text \<open>With qlog enabled there is a default tracer inside; \<open>schemas\<close> are those it supports.\<close>

definition makeLossTracer :: "bool \<Rightarrow> (string \<Rightarrow> bool) \<Rightarrow> lossTrace" where
  "makeLossTracer enableQlog schemas = \<lparr>tr_inner = (if enableQlog then Some schemas else None)\<rparr>"

definition AddProducer :: "lossTrace \<Rightarrow> lossRecorder" where
  "AddProducer t = \<lparr>rec_inner = (case tr_inner t of Some _ \<Rightarrow> Some [] | None \<Rightarrow> None), rec_closed = False\<rparr>"

definition SupportsSchemas :: "lossTrace \<Rightarrow> string \<Rightarrow> bool" where
  "SupportsSchemas t schema = (case tr_inner t of Some supports \<Rightarrow> supports schema | None \<Rightarrow> True)"

definition count_event :: "qlog_event \<Rightarrow> LossStats \<Rightarrow> LossStats" where
  "count_event ev s =
     (case ev of
        PacketLost pt \<Rightarrow> if pt = PacketType1RTT then s\<lparr>ls_lost := ls_lost s + 1\<rparr> else s
      | PacketSent pt \<Rightarrow> if pt = PacketType1RTT then s\<lparr>ls_sent := ls_sent s + 1\<rparr> else s
      | OtherEvent _ \<Rightarrow> s)"

definition RecordEvent :: "qlog_event \<Rightarrow> LossStats \<times> lossRecorder \<Rightarrow> LossStats \<times> lossRecorder" where
  "RecordEvent ev = (\<lambda>(stats, r). (count_event ev stats,
     r\<lparr>rec_inner := (case rec_inner r of Some evs \<Rightarrow> Some (evs @ [ev]) | None \<Rightarrow> None)\<rparr>))"

definition Recorder_Close :: "lossRecorder \<Rightarrow> lossRecorder" where
  "Recorder_Close r = (case rec_inner r of Some _ \<Rightarrow> r\<lparr>rec_closed := True\<rparr> | None \<Rightarrow> r)"

text \<open>Events of several recorders, each with the index of its recorder.\<close>

definition record_at :: "nat \<times> qlog_event \<Rightarrow> LossStats \<times> lossRecorder list \<Rightarrow> LossStats \<times> lossRecorder list" where
  "record_at e = (\<lambda>(stats, rs). if fst e < length rs
     then let (stats', r) = RecordEvent (snd e) (stats, rs ! fst e) in (stats', rs[fst e := r]) else (stats, rs))"

definition record_all :: "(nat \<times> qlog_event) list \<Rightarrow> LossStats \<times> lossRecorder list \<Rightarrow> LossStats \<times> lossRecorder list" where
  "record_all evs st = foldl (\<lambda>st e. record_at e st) st evs"

definition snapshotLoss :: "LossStats option \<Rightarrow> u64 \<times> u64" where
  "snapshotLoss ls = (case ls of None \<Rightarrow> (0, 0) | Some s \<Rightarrow> (ls_sent s, ls_lost s))"

definition lossPercentage :: "u64 \<Rightarrow> u64 \<Rightarrow> u64 \<Rightarrow> u64 \<Rightarrow> f64" where
  "lossPercentage preSent preLost postSent postLost =
     (let deltaSent = postSent - preSent; deltaLost = postLost - preLost
      in if deltaSent = 0 then Fin 0
         else f_div (f_mul (f_of_u64 deltaLost) (Fin 100)) (f_of_u64 deltaSent))"

text \<open>The percentage on the wire: ten thousandths of a percent, cut to an integer, and back.\<close>

definition loss_to_wire :: "(f64 \<Rightarrow> u64) \<Rightarrow> f64 \<Rightarrow> u64" where
  "loss_to_wire oor lossPct = u64_of_f64 oor (f_mul lossPct (Fin 10000))"

definition loss_from_wire :: "u64 \<Rightarrow> f64" where
  "loss_from_wire clientLossBp = f_div (f_of_u64 clientLossBp) (Fin 10000)"

section \<open>Correctness\<close>

definition one_rtt_sent :: "qlog_event list \<Rightarrow> nat" where
  "one_rtt_sent evs = length (filter (\<lambda>ev. ev = PacketSent PacketType1RTT) evs)"

definition one_rtt_lost :: "qlog_event list \<Rightarrow> nat" where
  "one_rtt_lost evs = length (filter (\<lambda>ev. ev = PacketLost PacketType1RTT) evs)"

lemma count_events:
  "foldl (\<lambda>s ev. count_event ev s) s evs =
    s\<lparr>ls_sent := ls_sent s + of_nat (one_rtt_sent evs), ls_lost := ls_lost s + of_nat (one_rtt_lost evs)\<rparr>"
proof (induction evs arbitrary: s)
  case (Cons ev evs)
  show ?case
    unfolding foldl_Cons Cons.IH
    by (cases ev) (auto simp: count_event_def one_rtt_sent_def one_rtt_lost_def)
qed (simp add: one_rtt_sent_def one_rtt_lost_def)

text \<open>All recorders count into the same numbers, and each hands on its own events.\<close>

lemma record_all_stats:
  assumes "\<forall>e \<in> set evs. fst e < length rs"
  shows "fst (record_all evs (stats, rs)) = foldl (\<lambda>s ev. count_event ev s) stats (map snd evs)"
  using assms unfolding record_all_def
  by (induction evs arbitrary: stats rs) (auto simp: record_at_def RecordEvent_def)

lemma record_all_forwards:
  assumes "i < length rs" "rec_inner (rs ! i) = Some old"
  shows "rec_inner (snd (record_all evs (stats, rs)) ! i) = Some (old @ map snd (filter (\<lambda>e. fst e = i) evs))"
  using assms unfolding record_all_def
proof (induction evs arbitrary: stats rs old)
  case (Cons e evs)
  obtain stats' rs' where st: "record_at e (stats, rs) = (stats', rs')" by (cases "record_at e (stats, rs)")
  then have "i < length rs'" "rec_inner (rs' ! i) = Some (if fst e = i then old @ [snd e] else old)"
    using Cons.prems by (auto simp: record_at_def RecordEvent_def split: if_splits)
  from Cons.IH [OF this, of stats'] show ?case using st by simp
qed simp

lemma loss_share:
  assumes "0 \<le> lost" "lost \<le> sent" "0 < sent" "sent \<le> 2 ^ 46"
  shows "\<exists>a. f_div (f_mul (Fin (of_int lost)) (Fin 100)) (Fin (of_int sent)) = Fin a \<and> 0 \<le> a \<and> a \<le> 100"
proof -
  have m: "f_mul (Fin (of_int lost)) (Fin 100) = Fin (of_int (lost * 100))"
    using ieee.rnd_int [of "lost * 100"] assms by simp
  have "\<exists>a. f64_round (of_int lost / of_int sent * of_int 100) = Fin a \<and> 0 \<le> a \<and> a \<le> of_int 100"
    using assms by (intro ieee.rnd_share) simp_all
  then show ?thesis using assms(3) unfolding m by (simp add: field_simps)
qed

lemma lossPercentage_bounds:
  assumes "lost \<le> sent" "uint sent \<le> 2 ^ 46"
    and "postSent = preSent + sent" "postLost = preLost + lost"
  shows "\<exists>a. lossPercentage preSent preLost postSent postLost = Fin a \<and> 0 \<le> a \<and> a \<le> 100"
proof (cases "sent = 0")
  case True
  then show ?thesis using assms by (simp add: lossPercentage_def)
next
  case False
  have b: "0 \<le> uint lost" "uint lost \<le> uint sent" "0 < uint sent"
    using False assms(1) by (simp_all add: word_le_def word_neq_0_conv word_less_def)
  then have "uint lost \<le> 2 ^ 53" "uint sent \<le> 2 ^ 53" using assms(2) by simp_all
  then have "f_of_u64 lost = Fin (of_int (uint lost))" "f_of_u64 sent = Fin (of_int (uint sent))"
    by (simp_all only: f_of_u64_exact)
  moreover have "postSent - preSent = sent" "postLost - preLost = lost" using assms by simp_all
  ultimately show ?thesis
    using False loss_share [OF b assms(2)] unfolding lossPercentage_def Let_def by (simp only: if_False)
qed

text \<open>A percentage survives the wire within its bounds, but for a cut of a ten thousandth.\<close>

lemma loss_wire_accurate:
  assumes "0 \<le> a" "a \<le> 100"
  shows "\<exists>b. loss_from_wire (loss_to_wire oor (Fin a)) = Fin b \<and> 0 \<le> b \<and> b \<le> 100 \<and> \<bar>b - a\<bar> < 1 / 9999"
proof -
  obtain x where x: "f64_round (a * 10000) = Fin x" "0 \<le> x" "x \<le> 1000000"
    using ieee.rnd_between [of 0 "a * 10000" 1000000] assms by auto
  define i where "i = \<lfloor>x\<rfloor>"
  have "\<lfloor>x\<rfloor> \<le> \<lfloor>1000000 :: rat\<rfloor>" using x(3) by (rule floor_mono)
  then have i: "0 \<le> i" "i \<le> 1000000" using x(2) by (simp_all add: i_def)
  have w: "loss_to_wire oor (Fin a) = word_of_int i"
    using x by (simp add: loss_to_wire_def u64_of_f64_def i_def)
  have u: "uint (word_of_int i :: u64) = i" using i by (simp add: uint_word_of_int_eq take_bit_int_eq_self)
  have f: "f_of_u64 (word_of_int i) = Fin (of_int i)" using f_of_u64_exact [of "word_of_int i"] i unfolding u by simp
  have r100: "(of_int i :: rat) \<le> 1000000" using i(2) by (metis of_int_le_iff of_int_numeral)
  then obtain b where b: "f64_round (of_int i / 10000) = Fin b" "0 \<le> b" "b \<le> 100"
    using ieee.rnd_between [of 0 "of_int i / 10000" 100] i(1) by auto
  have "\<bar>x - a * 10000\<bar> \<le> f64_ulp 19 / 2"
    by (rule f64_round_error [OF _ _ x(1)]) (use assms in \<open>simp_all add: pow2_def\<close>)
  moreover have "\<bar>b - of_int i / 10000\<bar> \<le> f64_ulp 6 / 2"
    by (rule f64_round_error [OF _ _ b(1)]) (use i(1) r100 in \<open>simp_all add: pow2_def\<close>)
  moreover have "of_int i \<le> x" "x < of_int i + 1" using floor_correct [of x] by (simp_all add: i_def)
  moreover have "f64_ulp 19 / 2 = 1 / 17179869184" "f64_ulp 6 / 2 = 1 / 140737488355328"
    by (simp_all add: f64_ulp_def pow2_def)
  ultimately have "\<bar>b - a\<bar> < 1 / 9999" unfolding abs_le_iff abs_less_iff by linarith
  then show ?thesis using b by (simp add: w loss_from_wire_def f)
qed

end
