(* ===== verification/Transfer_Tasks.thy ===== *)
theory Transfer_Tasks
  imports Config Stream_Prog Cpumon Loss_Stats
begin

text \<open>
  The upload and download tasks over one stream, as \<open>server/main.go\<close> and \<open>client/main.go\<close>
  have them, as programs of \<open>Stream_Prog\<close>: every read, write, check and early return in the
  order of the code. The clock readings and the two loss snapshots of a task are its argument
  \<open>env\<close>; a writer's \<open>n\<close> is the full length when there is no error.
\<close>

section \<open>Calls of a task\<close>

datatype task_error = StreamFailure string stream_error | UnknownTaskType byte

definition send_or :: "string \<Rightarrow> bytes \<Rightarrow> (task_error + 'r) prog \<Rightarrow> (task_error + 'r) prog" where
  "send_or what bs k = Send bs (\<lambda>a. case a of Some e \<Rightarrow> Done (Inl (StreamFailure what e)) | None \<Rightarrow> k)"

definition recv_or :: "string \<Rightarrow> nat \<Rightarrow> (bytes \<Rightarrow> (task_error + 'r) prog) \<Rightarrow> (task_error + 'r) prog" where
  "recv_or what n k = RecvFull n (\<lambda>a. case a of Inl e \<Rightarrow> Done (Inl (StreamFailure what e)) | Inr bs \<Rightarrow> k bs)"

text \<open>A computation that may panic, between two calls; the ones below always return.\<close>

definition compute :: "'a go \<Rightarrow> ('a \<Rightarrow> 'r prog) \<Rightarrow> 'r prog" where
  "compute m k = (case m of Ret x \<Rightarrow> k x | Panic p \<Rightarrow> Crash p | Hang \<Rightarrow> Crash (Explicit ''no return''))"

lemma compute_Ret [simp]: "compute (Ret x) k = k x"
  by (simp add: compute_def)

definition chunkSize :: nat where "chunkSize = 65536"

function send_loop ::
  "string \<Rightarrow> bytes \<Rightarrow> nat \<Rightarrow> (task_error + 'r) prog \<Rightarrow> (task_error + 'r) prog" where
  "send_loop what data sent k =
     (if sent < length data
      then let endIdx = (if length data < sent + chunkSize then length data else sent + chunkSize);
               chunk = take (endIdx - sent) (drop sent data)
           in Send chunk (\<lambda>a. case a of Some e \<Rightarrow> Done (Inl (StreamFailure what e))
                               | None \<Rightarrow> send_loop what data (sent + length chunk) k)
      else k)"
  by pat_completeness auto

termination
  by (relation "measure (\<lambda>(what, data, sent, k). length data - sent)") (auto simp: chunkSize_def)

declare send_loop.simps [simp del]

text \<open>
  Reading until the expected number of bytes has come; the end of the stream ends the loop
  without an error. The code counts in a \<open>uint64\<close>, which could wrap only if the expected size
  were within one chunk of \<open>2 ^ 64\<close>; the model counts in the natural numbers.
\<close>

definition read_fails :: "bytes \<times> stream_error option \<Rightarrow> stream_error option" where
  "read_fails a = (case snd a of Some e \<Rightarrow> if e \<noteq> EOF then Some e else None | None \<Rightarrow> None)"

function recv_loop ::
  "string \<Rightarrow> nat \<Rightarrow> nat \<Rightarrow> (nat \<Rightarrow> (task_error + 'r) prog) \<Rightarrow> (task_error + 'r) prog" where
  "recv_loop what expected received k =
     (if received < expected
      then RecvSome chunkSize (\<lambda>a. case read_fails a of
             Some e \<Rightarrow> Done (Inl (StreamFailure what e))
           | None \<Rightarrow> if fst a = [] then k received
                     else recv_loop what expected (received + length (fst a)) k)
      else k received)"
  by pat_completeness auto

termination
  by (relation "measure (\<lambda>(what, expected, received, k). expected - received)") (auto simp: neq_Nil_conv)

declare recv_loop.simps [simp del]

record task_env =
  te_start :: gotime
  te_end :: gotime
  te_pre :: "LossStats option"
  te_post :: "LossStats option"

definition MB :: f64 where "MB = Fin (1024 * 1024)"

section \<open>The server's tasks\<close>

record task_numbers =
  nm_speed :: f64
  nm_start :: gotime
  nm_end :: gotime
  nm_clientLoss :: f64
  nm_serverLoss :: f64

definition server_speed :: "nat \<Rightarrow> task_env \<Rightarrow> f64" where
  "server_speed received env =
     (let duration = time_sub (te_end env) (te_start env)
      in if 0 < duration then f_div (f_div (f_of_int (int received)) (Seconds duration)) MB else Fin 0)"

definition env_loss :: "task_env \<Rightarrow> f64" where
  "env_loss env =
     (let (preSent, preLost) = snapshotLoss (te_pre env); (postSent, postLost) = snapshotLoss (te_post env)
      in lossPercentage preSent preLost postSent postLost)"

definition server_runUploadTask ::
  "(f64 \<Rightarrow> u64) \<Rightarrow> task_env \<Rightarrow> (task_error + task_numbers) prog" where
  "server_runUploadTask oor env =
     recv_or ''receive upload size'' 8 (\<lambda>sizeBuf.
     compute (get_be64 sizeBuf) (\<lambda>expectedSize.
     send_or ''send ready ACK'' [1] (
     recv_loop ''receive upload data'' (unat expectedSize) 0 (\<lambda>received.
     send_or ''send completion ACK'' [1] (
     let speedMBps = server_speed received env in
     send_or ''send upload speed'' (put_be64 (u64_of_f64 oor (f_mul speedMBps (Fin 100)))) (
     recv_or ''receive client loss'' 8 (\<lambda>lossBuf.
     compute (get_be64 lossBuf) (\<lambda>clientLossBp.
     send_or ''send final ACK'' [1] (
     Done (Inr \<lparr>nm_speed = speedMBps, nm_start = te_start env, nm_end = te_end env,
       nm_clientLoss = loss_from_wire clientLossBp, nm_serverLoss = env_loss env\<rparr>))))))))))"

text \<open>
  A slice cannot be longer than the largest \<open>int\<close>; that there is memory for it, and that it is
  below the allocation limit of the machine's runtime, is assumed.
\<close>

definition make_download :: "u64 \<Rightarrow> bytes go" where
  "make_download sendSize =
     (if 2 ^ 63 \<le> unat sendSize then Panic (Explicit ''makeslice: len out of range'')
      else Ret (map (\<lambda>i. of_nat ((i + 100) mod 256)) [0..<unat sendSize]))"

definition server_runDownloadTask ::
  "(f64 \<Rightarrow> u64) \<Rightarrow> task_env \<Rightarrow> (task_error + task_numbers) prog" where
  "server_runDownloadTask oor env =
     recv_or ''receive download size'' 8 (\<lambda>sizeBuf.
     compute (get_be64 sizeBuf) (\<lambda>sendSize.
     compute (make_download sendSize) (\<lambda>data.
     send_or ''send download size'' (put_be64 sendSize) (
     send_loop ''send download data'' data 0 (
     let speedMBps = server_speed (unat sendSize) env in
     recv_or ''receive client speed'' 8 (\<lambda>_.
     recv_or ''receive client loss'' 8 (\<lambda>lossBuf.
     compute (get_be64 lossBuf) (\<lambda>clientLossBp.
     send_or ''send final ACK'' [1] (
     Done (Inr \<lparr>nm_speed = speedMBps, nm_start = te_start env, nm_end = te_end env,
       nm_clientLoss = loss_from_wire clientLossBp, nm_serverLoss = env_loss env\<rparr>))))))))))"

definition getAverages :: "ProcessMonitor option \<Rightarrow> gotime \<Rightarrow> gotime \<Rightarrow> f64 \<times> f64" where
  "getAverages pm start end =
     (case pm of None \<Rightarrow> (Fin 0, Fin 0) | Some m \<Rightarrow> AverageBetween m start end)"

record taskResult =
  taskID :: u64
  taskType :: string
  speedMBps :: f64
  cpuAvg :: f64
  memAvgMB :: f64
  clientLossPct :: f64
  serverLossPct :: f64

definition taskUpload :: byte where "taskUpload = 1"
definition taskDownload :: byte where "taskDownload = 2"

definition task_result :: "u64 \<Rightarrow> string \<Rightarrow> ProcessMonitor option \<Rightarrow> task_numbers \<Rightarrow> taskResult" where
  "task_result tid kind pm nm =
     (let (cpu, mem) = getAverages pm (nm_start nm) (nm_end nm)
      in \<lparr>taskID = tid, taskType = kind, speedMBps = nm_speed nm, cpuAvg = cpu, memAvgMB = mem,
          clientLossPct = nm_clientLoss nm, serverLossPct = nm_serverLoss nm\<rparr>)"

definition finish_task :: "u64 \<Rightarrow> string \<Rightarrow> ProcessMonitor option \<Rightarrow> task_error + task_numbers \<Rightarrow> (task_error + taskResult) prog" where
  "finish_task tid kind pm r = (case r of Inl e \<Rightarrow> Done (Inl e) | Inr nm \<Rightarrow> Done (Inr (task_result tid kind pm nm)))"

text \<open>\<open>handleSingleTask\<close>; the new value of \<open>taskSeq\<close> is the task's number.\<close>

definition next_task_id :: "u64 \<Rightarrow> u64" where "next_task_id taskSeq = taskSeq + 1"

definition handleSingleTask ::
  "(f64 \<Rightarrow> u64) \<Rightarrow> task_env \<Rightarrow> ProcessMonitor option \<Rightarrow> u64 \<Rightarrow> (task_error + taskResult) prog" where
  "handleSingleTask oor env pm taskSeq =
     recv_or ''read task type'' 1 (\<lambda>buf.
       if hd buf = taskUpload
       then prog_bind (server_runUploadTask oor env) (finish_task (next_task_id taskSeq) ''upload'' pm)
       else if hd buf = taskDownload
       then prog_bind (server_runDownloadTask oor env) (finish_task (next_task_id taskSeq) ''download'' pm)
       else Done (Inl (UnknownTaskType (hd buf))))"

section \<open>The client's tasks\<close>

text \<open>
  The results are the speed and the loss. The times are those of \<open>time.Now\<close> at the start and of
  the \<open>time.Since\<close> after the data. The numbers that an error return carries are ignored by the
  caller and left out.
\<close>

definition client_speed :: "nat \<Rightarrow> task_env \<Rightarrow> f64" where
  "client_speed n env = f_div (f_div (f_of_int (int n)) (Seconds (time_sub (te_end env) (te_start env)))) MB"

definition client_runUploadTask ::
  "(f64 \<Rightarrow> u64) \<Rightarrow> task_env \<Rightarrow> bytes \<Rightarrow> (task_error + f64 \<times> f64) prog" where
  "client_runUploadTask oor env data =
     send_or ''send task type'' [taskUpload] (
     send_or ''send upload size'' (put_be64 (of_nat (length data))) (
     recv_or ''receive ready ACK'' 1 (\<lambda>_.
     send_loop ''send upload data'' data 0 (
     recv_or ''receive completion ACK'' 1 (\<lambda>_.
     let lossPct = env_loss env; uploadMBps = client_speed (length data) env in
     recv_or ''receive server speed'' 8 (\<lambda>_.
     send_or ''send loss pct'' (put_be64 (loss_to_wire oor lossPct)) (
     recv_or ''receive final ACK'' 1 (\<lambda>_.
     Done (Inr (uploadMBps, lossPct))))))))))"

definition client_runDownloadTask ::
  "(f64 \<Rightarrow> u64) \<Rightarrow> task_env \<Rightarrow> int \<Rightarrow> (task_error + f64 \<times> f64) prog" where
  "client_runDownloadTask oor env sz =
     send_or ''send task type'' [taskDownload] (
     send_or ''send download size'' (put_be64 (u64_of_i64 sz)) (
     recv_or ''receive file size'' 8 (\<lambda>sizeBuf.
     compute (get_be64 sizeBuf) (\<lambda>expectedSize.
     recv_loop ''receive data'' (unat expectedSize) 0 (\<lambda>received.
     let lossPct = env_loss env; downloadMBps = client_speed received env in
     send_or ''send download speed'' (put_be64 (u64_of_f64 oor (f_mul downloadMBps (Fin 100)))) (
     send_or ''send loss pct'' (put_be64 (loss_to_wire oor lossPct)) (
     recv_or ''receive final ACK'' 1 (\<lambda>_.
     Done (Inr (downloadMBps, lossPct))))))))))"

text \<open>The test data of \<open>performTransferTasks\<close>.\<close>

definition testData :: "config \<Rightarrow> bytes go" where
  "testData cfg =
     (if TransferFileSizeBytes cfg < 0 then Panic (Explicit ''makeslice: len out of range'')
      else Ret (map (\<lambda>i. of_nat (i mod 256)) [0..<nat (TransferFileSizeBytes cfg)]))"


section \<open>The dialogues\<close>

text \<open>The calls of a task, run first.\<close>

lemma good_send_or_left:
  "good Q ((k, il), (p, ir @ bs)) \<Longrightarrow> good Q ((send_or what bs k, il), (p, ir))"
  unfolding send_or_def by (rule good_Send_left) simp

lemma good_send_or_right:
  "good Q ((p, il @ bs), (k, ir)) \<Longrightarrow> good Q ((p, il), (send_or what bs k, ir))"
  unfolding send_or_def by (rule good_Send_right) simp

lemma good_recv_or_left:
  "length bs = n \<Longrightarrow> good Q ((k bs, il), r) \<Longrightarrow> good Q ((recv_or what n k, bs @ il), r)"
  unfolding recv_or_def by (rule good_RecvFull_left) simp_all

lemma good_recv_or_right:
  "length bs = n \<Longrightarrow> good Q (l, (k bs, ir)) \<Longrightarrow> good Q (l, (recv_or what n k, bs @ ir))"
  unfolding recv_or_def by (rule good_RecvFull_right) simp_all

lemma good_send_loop_left:
  "good Q ((k, il), (p, ir @ drop sent data)) \<Longrightarrow> good Q ((send_loop what data sent k, il), (p, ir))"
proof (induction what data sent k arbitrary: ir rule: send_loop.induct)
  case (1 what data sent k)
  show ?case
  proof (cases "sent < length data")
    case False
    then show ?thesis using 1(2) by (simp add: send_loop.simps)
  next
    case True
    define endIdx where "endIdx = (if length data < sent + chunkSize then length data else sent + chunkSize)"
    define chunk where "chunk = take (endIdx - sent) (drop sent data)"
    have eq: "chunk @ drop (sent + length chunk) data = drop sent data"
      unfolding chunk_def by (metis append_take_drop_id drop_drop length_take add.commute drop_take take_drop
          length_append append_eq_conv_conj)
    have "good Q ((send_loop what data (sent + length chunk) k, il), (p, ir @ chunk))"
      using 1(1) [OF True endIdx_def chunk_def] 1(2) eq by (simp add: append_assoc)
    moreover have "send_loop what data sent k = Send chunk (\<lambda>a. case a of Some e \<Rightarrow> Done (Inl (StreamFailure what e))
        | None \<Rightarrow> send_loop what data (sent + length chunk) k)"
      by (subst send_loop.simps) (simp only: True if_True Let_def endIdx_def chunk_def)
    ultimately show ?thesis by (simp only:) (rule good_Send_left, simp)
  qed
qed

lemma good_send_loop_right:
  assumes "good Q ((p, il @ drop sent data), (k, ir))"
  shows "good Q ((p, il), (send_loop what data sent k, ir))"
  using good_swap [OF good_send_loop_left [OF good_swap [OF assms]]] by simp

lemma good_recv_loop_right:
  assumes "length il < n" "length ir = expected" "good Q ((recv_or w n k, il), (kr expected, []))"
  shows "good Q ((recv_or w n k, il), (recv_loop what expected 0 kr, ir))"
  unfolding recv_or_def
proof (rule good_read_loop [where R = "\<lambda>i. recv_loop what expected i kr" and b = chunkSize and tot = expected])
  show "i < expected \<Longrightarrow> recv_loop what expected i kr = RecvSome chunkSize (\<lambda>a. case read_fails a of
             Some e \<Rightarrow> Done (Inl (StreamFailure what e))
           | None \<Rightarrow> if fst a = [] then kr i else recv_loop what expected (i + length (fst a)) kr)" for i
    by (subst recv_loop.simps) simp
qed (use assms in \<open>simp_all add: chunkSize_def read_fails_def recv_or_def recv_loop.simps [of what expected expected]\<close>)

lemma good_recv_loop_left:
  assumes "length ir < n" "length il = expected" "good Q ((kl expected, []), (recv_or w n k, ir))"
  shows "good Q ((recv_loop what expected 0 kl, il), (recv_or w n k, ir))"
  using good_swap [OF good_recv_loop_right [where kr = kl, OF assms(1,2) good_swap [OF assms(3)]]] by simp

text \<open>The wrapper of \<open>handleSingleTask\<close> passes errors on and commutes with the calls.\<close>

lemma bind_calls:
  assumes "\<And>e. f (Inl e) = Done (Inl e)"
  shows "prog_bind (send_or what bs k) f = send_or what bs (prog_bind k f)"
    "prog_bind (recv_or what n kk) f = recv_or what n (\<lambda>bs. prog_bind (kk bs) f)"
    "prog_bind (compute m kc) f = compute m (\<lambda>x. prog_bind (kc x) f)"
  using assms
  by (auto simp: send_or_def recv_or_def compute_def fun_eq_iff split: option.splits sum.splits go.splits)

lemma bind_send_loop:
  assumes "\<And>e. f (Inl e) = Done (Inl e)"
  shows "prog_bind (send_loop what data sent k) f = send_loop what data sent (prog_bind k f)"
proof (induction what data sent k rule: send_loop.induct)
  case (1 what data sent k)
  then show ?case using assms
    by (auto simp: send_loop.simps [of what data sent] Let_def fun_eq_iff split: option.splits)
qed

lemma bind_recv_loop:
  assumes "\<And>e. f (Inl e) = Done (Inl e)"
  shows "prog_bind (recv_loop what expected i k) f = recv_loop what expected i (\<lambda>n. prog_bind (k n) f)"
proof (induction what expected i k rule: recv_loop.induct)
  case (1 what expected i k)
  show ?case
  proof (cases "i < expected")
    case False
    then show ?thesis by (simp add: recv_loop.simps)
  next
    case True
    have "prog_bind (case read_fails a of Some e \<Rightarrow> Done (Inl (StreamFailure what e))
           | None \<Rightarrow> if fst a = [] then k i else recv_loop what expected (i + length (fst a)) k) f =
        (case read_fails a of Some e \<Rightarrow> Done (Inl (StreamFailure what e))
           | None \<Rightarrow> if fst a = [] then prog_bind (k i) f
                     else recv_loop what expected (i + length (fst a)) (\<lambda>n. prog_bind (k n) f))" for a
      using 1 [OF True, of a] assms by (cases "read_fails a") simp_all
    then show ?thesis using True by (simp add: recv_loop.simps [of what expected i])
  qed
qed

lemma finish_task_Inl: "finish_task tid kind pm (Inl e) = Done (Inl e)"
  by (simp add: finish_task_def)

lemmas bind_task = bind_calls [where f = "finish_task tid kind pm" for tid kind pm, OF finish_task_Inl]
  bind_send_loop [where f = "finish_task tid kind pm" for tid kind pm, OF finish_task_Inl]
  bind_recv_loop [where f = "finish_task tid kind pm" for tid kind pm, OF finish_task_Inl]

end
