(* ===== verification/Transfer_Correct.thy ===== *)
theory Transfer_Correct
  imports Transfer_Tasks
begin

text \<open>
  Correctness of the transfer tasks: the dialogues of client and server end well under every
  schedule, and what the server may conclude from a task that ended well, whatever its peer is.
\<close>

section \<open>Dialogues of client and server\<close>

text \<open>The steps of a dialogue in which at most one message is under way.\<close>

lemma dialogue_send:
  "good Q ((k, []), (p, bs)) \<Longrightarrow> good Q ((send_or what bs k, []), (p, []))"
  "good Q ((p', bs), (k', [])) \<Longrightarrow> good Q ((p', []), (send_or what bs k', []))"
  using good_send_or_left [of Q k "[]" p "[]" bs what] good_send_or_right [of Q p' "[]" bs k' "[]" what] by simp_all

lemma dialogue_recv:
  "length bs = n \<Longrightarrow> good Q ((k bs, []), r) \<Longrightarrow> good Q ((recv_or what n k, bs), r)"
  "length bs = n \<Longrightarrow> good Q (l, (k' bs, [])) \<Longrightarrow> good Q (l, (recv_or what n k', bs))"
  using good_recv_or_left [of bs n Q k "[]" r what] good_recv_or_right [of bs n Q l k' "[]" what] by simp_all

lemma dialogue_compute:
  "m = Ret x \<Longrightarrow> good Q ((k x, il), r) \<Longrightarrow> good Q ((compute m k, il), r)"
  "m = Ret x \<Longrightarrow> good Q (l, (k' x, ir)) \<Longrightarrow> good Q (l, (compute m k', ir))"
  by simp_all

lemma dialogue_send_loop:
  "good Q ((k, []), (p, data)) \<Longrightarrow> good Q ((send_loop what data 0 k, []), (p, []))"
  "good Q ((p', data), (k', [])) \<Longrightarrow> good Q ((p', []), (send_loop what data 0 k', []))"
  using good_send_loop_left [of Q k "[]" p "[]" 0 data what] good_send_loop_right [of Q p' "[]" 0 data k' "[]" what] by simp_all

lemma dialogue_recv_loop:
  "0 < n \<Longrightarrow> length ir = expected \<Longrightarrow> good Q ((recv_or w n k, []), (kr expected, [])) \<Longrightarrow>
    good Q ((recv_or w n k, []), (recv_loop what expected 0 kr, ir))"
  "0 < n \<Longrightarrow> length il = expected \<Longrightarrow> good Q ((kl expected, []), (recv_or w n k', [])) \<Longrightarrow>
    good Q ((recv_loop what expected 0 kl, il), (recv_or w n k', []))"
  by (rule good_recv_loop_right good_recv_loop_left; simp)+

lemmas dialogue = good_Done dialogue_send dialogue_recv dialogue_compute dialogue_send_loop dialogue_recv_loop

lemma length_single: "length [b] = 1" by simp

text \<open>Client and server of one stream at its start, and what both hold at the end.\<close>

definition upload_net ::
  "(f64 \<Rightarrow> u64) \<Rightarrow> (f64 \<Rightarrow> u64) \<Rightarrow> task_env \<Rightarrow> task_env \<Rightarrow> ProcessMonitor option \<Rightarrow> u64 \<Rightarrow> bytes \<Rightarrow>
    (task_error + f64 \<times> f64, task_error + taskResult) net" where
  "upload_net oorc oors envc envs pm taskSeq data =
     ((client_runUploadTask oorc envc data, []), (handleSingleTask oors envs pm taskSeq, []))"

definition download_net ::
  "(f64 \<Rightarrow> u64) \<Rightarrow> (f64 \<Rightarrow> u64) \<Rightarrow> task_env \<Rightarrow> task_env \<Rightarrow> ProcessMonitor option \<Rightarrow> u64 \<Rightarrow> int \<Rightarrow>
    (task_error + f64 \<times> f64, task_error + taskResult) net" where
  "download_net oorc oors envc envs pm taskSeq sz =
     ((client_runDownloadTask oorc envc sz, []), (handleSingleTask oors envs pm taskSeq, []))"

definition transfer_done ::
  "string \<Rightarrow> (f64 \<Rightarrow> u64) \<Rightarrow> task_env \<Rightarrow> task_env \<Rightarrow> ProcessMonitor option \<Rightarrow> u64 \<Rightarrow> nat \<Rightarrow>
    (task_error + f64 \<times> f64) \<times> bytes \<Rightarrow> (task_error + taskResult) \<times> bytes \<Rightarrow> bool" where
  "transfer_done kind oorc envc envs pm taskSeq n c s \<longleftrightarrow>
     c = (Inr (client_speed n envc, env_loss envc), []) \<and>
     s = (Inr (task_result (next_task_id taskSeq) kind pm
       \<lparr>nm_speed = server_speed n envs, nm_start = te_start envs, nm_end = te_end envs,
        nm_clientLoss = loss_from_wire (loss_to_wire oorc (env_loss envc)), nm_serverLoss = env_loss envs\<rparr>), [])"

lemma upload_good:
  assumes "length data < 2 ^ 64"
  shows "good (transfer_done ''upload'' oorc envc envs pm taskSeq (length data))
    (upload_net oorc oors envc envs pm taskSeq data)"
proof -
  have n: "unat (of_nat (length data) :: u64) = length data" using assms by (simp add: unsigned_of_nat take_bit_nat_eq_self)
  show ?thesis
    unfolding upload_net_def client_runUploadTask_def handleSingleTask_def server_runUploadTask_def Let_def
    by (simp only: bind_task prog_bind.simps)
      (rule dialogue_send dialogue_send_loop
      | rule dialogue_recv, rule length_put_be64 length_single
      | rule dialogue_compute, rule get_put_be
      | rule dialogue_recv_loop, rule zero_less_one, rule n [symmetric]
      | rule good_Done, simp add: transfer_done_def n
      | simp only: list.sel if_True simp_thms finish_task_def sum.case)+
qed

lemma download_good:
  assumes "0 \<le> sz" "sz < 2 ^ 63"
  shows "good (transfer_done ''download'' oorc envc envs pm taskSeq (nat sz))
    (download_net oorc oors envc envs pm taskSeq sz)"
proof -
  have n: "unat (u64_of_i64 sz) = nat sz"
    using assms by (simp add: u64_of_i64_def unat_eq_nat_uint uint_word_of_int_eq take_bit_int_eq_self)
  obtain data where data: "make_download (u64_of_i64 sz) = Ret data" "length data = unat (u64_of_i64 sz)"
    using assms by (simp add: make_download_def n nat_less_iff not_le)
  have types: "(taskDownload = taskUpload) = False" by (simp add: taskDownload_def taskUpload_def)
  show ?thesis
    unfolding download_net_def client_runDownloadTask_def handleSingleTask_def server_runDownloadTask_def Let_def
    by (simp only: bind_task prog_bind.simps)
      (rule dialogue_send dialogue_send_loop
      | rule dialogue_recv, rule length_put_be64 length_single
      | rule dialogue_compute, rule get_put_be data(1)
      | rule dialogue_recv_loop, rule zero_less_numeral, rule data(2)
      | rule good_Done, simp add: transfer_done_def n
      | simp only: list.sel types if_True if_False simp_thms finish_task_def sum.case)+
qed

section \<open>A task against any peer\<close>

lemma run_send_or:
  assumes "stream_run inp (send_or what bs k) out (Inr r)"
  obtains out' where "out = bs @ out'" "stream_run inp k out' (Inr r)"
  using assms unfolding send_or_def by (auto elim: run_SendE)

lemma run_recv_or:
  assumes "stream_run inp (recv_or what n k) out (Inr r)"
  obtains got rest where "inp = got @ rest" "length got = n" "stream_run rest (k got) out (Inr r)"
  using assms unfolding recv_or_def by (auto elim: run_RecvFullE)

lemma run_compute:
  assumes "stream_run inp (compute m k) out r"
  obtains x where "m = Ret x" "stream_run inp (k x) out r"
  using assms by (cases m) (auto simp: compute_def)

lemma run_send_loop:
  assumes "stream_run inp (send_loop what data sent k) out (Inr r)"
  shows "\<exists>out'. out = drop sent data @ out' \<and> stream_run inp k out' (Inr r)"
  using assms
proof (induction what data sent k arbitrary: out rule: send_loop.induct)
  case (1 what data sent k)
  show ?case
  proof (cases "sent < length data")
    case False
    then show ?thesis using 1(2) by (simp add: send_loop.simps)
  next
    case True
    define endIdx where "endIdx = (if length data < sent + chunkSize then length data else sent + chunkSize)"
    define chunk where "chunk = take (endIdx - sent) (drop sent data)"
    have eq: "drop sent data = chunk @ drop (sent + length chunk) data"
      unfolding chunk_def by (metis append_take_drop_id drop_drop length_take add.commute drop_take take_drop
          length_append append_eq_conv_conj)
    have "send_loop what data sent k = Send chunk (\<lambda>a. case a of Some e \<Rightarrow> Done (Inl (StreamFailure what e))
        | None \<Rightarrow> send_loop what data (sent + length chunk) k)"
      by (subst send_loop.simps) (simp only: True if_True Let_def endIdx_def chunk_def)
    then obtain out' where o: "out = chunk @ out'" "stream_run inp (send_loop what data (sent + length chunk) k) out' (Inr r)"
      using 1(2) by (auto elim: run_SendE)
    then show ?thesis using 1(1) [OF True endIdx_def chunk_def o(2)] eq by auto
  qed
qed

lemma run_RecvSome_answers:
  assumes "stream_run inp (RecvSome n K) out r"
  obtains got rest e where "inp = got @ rest" "stream_run rest (K (got, e)) out r"
    "e = None \<and> got \<noteq> [] \<or> e = Some EOF \<and> rest = [] \<or> (\<exists>x. e = Some (NetError x))"
  using assms
proof (cases rule: stream_run.cases)
  case (run_RecvSome got inp')
  then show ?thesis using that by blast
next
  case run_RecvSome_last
  then show ?thesis using that [of inp "[]" "Some EOF"] by simp
next
  case (run_RecvSome_fails got inp' e)
  then show ?thesis using that by blast
qed

lemma run_recv_loop:
  assumes "stream_run inp (recv_loop what expected i k) out (Inr r)"
  shows "\<exists>got rest. inp = got @ rest \<and> (expected \<le> i + length got \<or> rest = []) \<and>
    stream_run rest (k (i + length got)) out (Inr r)"
  using assms
proof (induction what expected i k arbitrary: inp rule: recv_loop.induct)
  case (1 what expected i k)
  show ?case
  proof (cases "i < expected")
    case False
    then show ?thesis using 1(2) by (intro exI [of _ "[]"] exI [of _ inp]) (simp add: recv_loop.simps)
  next
    case less: True
    let ?K = "\<lambda>a. case read_fails a of Some e \<Rightarrow> Done (Inl (StreamFailure what e))
           | None \<Rightarrow> if fst a = [] then k i else recv_loop what expected (i + length (fst a)) k"
    have "stream_run inp (RecvSome chunkSize ?K) out (Inr r)"
      using 1(2) less by (simp add: recv_loop.simps [of what expected i])
    then obtain got rest e where step: "inp = got @ rest" "stream_run rest (?K (got, e)) out (Inr r)"
        "e = None \<and> got \<noteq> [] \<or> e = Some EOF \<and> rest = [] \<or> (\<exists>x. e = Some (NetError x))"
      by (rule run_RecvSome_answers)
    then have ok: "read_fails (got, e) = None" by (auto simp: read_fails_def)
    show ?thesis
    proof (cases "got = []")
      case True
      then show ?thesis using step ok by (intro exI [of _ "[]"]) (auto simp: read_fails_def)
    next
      case False
      then have "stream_run rest (recv_loop what expected (i + length got) k) out (Inr r)"
        using step(2) ok by simp
      with 1(1) [OF less, of "(got, e)" rest] ok False obtain got' rest' where "rest = got' @ rest'"
          "expected \<le> i + length got + length got' \<or> rest' = []"
          "stream_run rest' (k (i + length got + length got')) out (Inr r)"
        by (simp only: fst_conv simp_thms) blast
      then show ?thesis using step(1) by (intro exI [of _ "got @ got'"] exI [of _ rest']) (auto simp: add.assoc)
    qed
  qed
qed

lemma run_send_loopE:
  assumes "stream_run inp (send_loop what data sent k) out (Inr r)"
  obtains out' where "out = drop sent data @ out'" "stream_run inp k out' (Inr r)"
  using run_send_loop [OF assms] by blast

lemma run_recv_loopE:
  assumes "stream_run inp (recv_loop what expected i k) out (Inr r)"
  obtains got rest where "inp = got @ rest" "expected \<le> i + length got \<or> rest = []"
    "stream_run rest (k (i + length got)) out (Inr r)"
  using run_recv_loop [OF assms] by blast

text \<open>What the two tasks of the server have read and written when they return a result.\<close>

lemma completed_upload:
  assumes "stream_run inp (prog_bind (server_runUploadTask oor env) (finish_task tid kind pm)) out (Inr res)"
  shows "\<exists>sizeBuf data lossBuf rest size loss. inp = sizeBuf @ data @ lossBuf @ rest \<and>
    length sizeBuf = 8 \<and> get_be64 sizeBuf = Ret size \<and> unat size \<le> length data \<and>
    length lossBuf = 8 \<and> get_be64 lossBuf = Ret loss \<and>
    res = task_result tid kind pm \<lparr>nm_speed = server_speed (length data) env, nm_start = te_start env,
      nm_end = te_end env, nm_clientLoss = loss_from_wire loss, nm_serverLoss = env_loss env\<rparr>"
  using assms unfolding server_runUploadTask_def Let_def bind_task
  by (elim run_recv_or run_compute run_send_or run_recv_loopE)
    (simp only: prog_bind.simps finish_task_def sum.case run_Done_iff sum.inject add_0, elim conjE disjE;
     (hypsubst, intro exI conjI, rule refl, assumption+, rule refl | simp))

lemma completed_download:
  assumes "stream_run inp (prog_bind (server_runDownloadTask oor env) (finish_task tid kind pm)) out (Inr res)"
  shows "\<exists>sizeBuf speedBuf lossBuf rest size data loss. inp = sizeBuf @ speedBuf @ lossBuf @ rest \<and>
    length sizeBuf = 8 \<and> get_be64 sizeBuf = Ret size \<and> make_download size = Ret data \<and>
    out = put_be64 size @ data @ [1] \<and> length speedBuf = 8 \<and> length lossBuf = 8 \<and> get_be64 lossBuf = Ret loss \<and>
    res = task_result tid kind pm \<lparr>nm_speed = server_speed (unat size) env, nm_start = te_start env,
      nm_end = te_end env, nm_clientLoss = loss_from_wire loss, nm_serverLoss = env_loss env\<rparr>"
  using assms unfolding server_runDownloadTask_def Let_def bind_task
  by (elim run_recv_or run_compute run_send_or run_send_loopE)
    (simp only: prog_bind.simps finish_task_def sum.case run_Done_iff sum.inject, elim conjE;
     hypsubst, intro exI conjI, rule refl, assumption+, simp, assumption+, rule refl)

text \<open>The percentage of a span of recorded events.\<close>

lemma recorded_loss:
  assumes "te_pre env = Some stats" "te_post env = Some (fst (record_all evs (stats, rs)))"
    and "\<forall>e \<in> set evs. fst e < length rs"
    and "one_rtt_lost (map snd evs) \<le> one_rtt_sent (map snd evs)" "one_rtt_sent (map snd evs) \<le> 2 ^ 46"
  shows "\<exists>a. env_loss env = Fin a \<and> 0 \<le> a \<and> a \<le> 100"
proof -
  have le: "(of_nat (one_rtt_lost (map snd evs)) :: u64) \<le> of_nat (one_rtt_sent (map snd evs))"
    using assms(4,5) by (simp add: word_le_nat_alt unat_of_nat)
  have u: "uint (of_nat (one_rtt_sent (map snd evs)) :: u64) \<le> 2 ^ 46"
    using assms(5) by (simp add: uint_nat unat_of_nat)
  show ?thesis
    using lossPercentage_bounds [OF le u] assms(1,2)
    by (simp add: env_loss_def snapshotLoss_def record_all_stats [OF assms(3)] count_events)
qed

section \<open>Properties\<close>

text \<open>A task of two seconds in which 100 packets were sent and 3 lost.\<close>

definition demo_env :: task_env where
  "demo_env = \<lparr>te_start = \<lparr>wall = 0, mono = 0\<rparr>, te_end = \<lparr>wall = 2000000000, mono = 2000000000\<rparr>,
     te_pre = Some \<lparr>ls_sent = 5, ls_lost = 0\<rparr>, te_post = Some \<lparr>ls_sent = 105, ls_lost = 3\<rparr>\<rparr>"

text \<open>
  C5. Client and server agree on an upload: whatever the order of their steps and however the
  network splits the data, both programs return after finitely many steps, with all bytes read;
  the client has its speed and loss, and the server's result is for the whole of the data,
  with the loss the client measured.
\<close>

theorem upload_completes:
  assumes "length data < 2 ^ 64"
  shows "ends_with (transfer_done ''upload'' oorc envc envs pm taskSeq (length data))
    (upload_net oorc oors envc envs pm taskSeq data)"
  by (rule good_ends_with [OF upload_good [OF assms]])

theorem upload_completes_witness:
  "\<exists>data. testData default_config = Ret data \<and> length data = 104857600 \<and>
    ends_with (transfer_done ''upload'' (\<lambda>_. 0) demo_env demo_env None 0 104857600)
      (upload_net (\<lambda>_. 0) (\<lambda>_. 0) demo_env demo_env None 0 data)"
proof -
  obtain data where "testData default_config = Ret data" "length data = 104857600"
    by (simp add: testData_def default_config_def)
  then show ?thesis using upload_completes [of data "\<lambda>_. 0" demo_env demo_env None 0 "\<lambda>_. 0"] by simp
qed

text \<open>
  C6. Client and server agree on a download in the same way: under every schedule both return,
  with results for exactly the requested size.
\<close>

theorem download_completes:
  assumes "0 \<le> sz" "sz < 2 ^ 63"
  shows "ends_with (transfer_done ''download'' oorc envc envs pm taskSeq (nat sz))
    (download_net oorc oors envc envs pm taskSeq sz)"
  by (rule good_ends_with [OF download_good [OF assms]])

theorem download_completes_witness:
  "ends_with (transfer_done ''download'' (\<lambda>_. 0) demo_env demo_env None 0 104857600)
    (download_net (\<lambda>_. 0) (\<lambda>_. 0) demo_env demo_env None 0 (TransferFileSizeBytes default_config))"
  using download_completes [of "TransferFileSizeBytes default_config" "\<lambda>_. 0" demo_env demo_env None 0 "\<lambda>_. 0"]
  by (simp add: default_config_def)

text \<open>
  C7. Whatever the peer sends and whichever calls fail, a task that returns a result was an
  upload of which the announced number of bytes at least was read, or a download of which every
  byte was written.
\<close>

theorem completed_task_transferred:
  assumes "stream_run inp (handleSingleTask oor env pm taskSeq) out (Inr res)"
  shows "(\<exists>sizeBuf data lossBuf rest size. inp = [taskUpload] @ sizeBuf @ data @ lossBuf @ rest \<and>
      length sizeBuf = 8 \<and> get_be64 sizeBuf = Ret size \<and> unat size \<le> length data \<and> length lossBuf = 8 \<and>
      taskType res = ''upload'' \<and> taskID res = taskSeq + 1 \<and> speedMBps res = server_speed (length data) env) \<or>
    (\<exists>sizeBuf rest size data. inp = [taskDownload] @ sizeBuf @ rest \<and>
      length sizeBuf = 8 \<and> get_be64 sizeBuf = Ret size \<and> make_download size = Ret data \<and>
      out = put_be64 size @ data @ [1] \<and> 16 \<le> length rest \<and>
      taskType res = ''download'' \<and> taskID res = taskSeq + 1 \<and> speedMBps res = server_speed (unat size) env)"
proof -
  from assms obtain got inp' where got: "inp = got @ inp'" "length got = 1"
    "stream_run inp' (if hd got = taskUpload
       then prog_bind (server_runUploadTask oor env) (finish_task (next_task_id taskSeq) ''upload'' pm)
       else if hd got = taskDownload
       then prog_bind (server_runDownloadTask oor env) (finish_task (next_task_id taskSeq) ''download'' pm)
       else Done (Inl (UnknownTaskType (hd got)))) out (Inr res)"
    unfolding handleSingleTask_def by (rule run_recv_or)
  obtain b where b: "got = [b]" using got(2) by (auto simp: length_Suc_conv)
  note [simp] = task_result_def next_task_id_def case_prod_beta
  show ?thesis
  proof (cases "b = taskUpload")
    case True
    then show ?thesis using completed_upload [of inp' oor env] got b by fastforce
  next
    case False
    then have "b = taskDownload" using got(3) b by (auto split: if_splits)
    then show ?thesis using completed_download [of inp' oor env] got b False by fastforce
  qed
qed

lemma run_calls:
  "length got = n \<Longrightarrow> stream_run inp (kk got) out r \<Longrightarrow> stream_run (got @ inp) (recv_or what n kk) out r"
  "stream_run inp k out r \<Longrightarrow> stream_run inp (send_or what bs k) (bs @ out) r"
  "m = Ret x \<Longrightarrow> stream_run inp (kc x) out r \<Longrightarrow> stream_run inp (compute m kc) out r"
  by (simp_all add: recv_or_def send_or_def run_RecvFull run_Send)

lemma run_loop_step:
  assumes "got \<noteq> []" "i + length got = expected" "length got \<le> chunkSize" "stream_run rest (k expected) out r"
  shows "stream_run (got @ rest) (recv_loop what expected i k) out r"
proof -
  have "i < expected" using assms(1,2) by (cases got) auto
  then show ?thesis using assms
    by (subst recv_loop.simps) (simp add: run_RecvSome read_fails_def recv_loop.simps [of what expected expected])
qed

theorem completed_task_transferred_witness:
  "\<exists>out res. stream_run ([1] @ put_be64 1 @ [7] @ put_be64 0) (handleSingleTask (\<lambda>_. 0) demo_env None 0) out (Inr res) \<and>
    taskType res = ''upload'' \<and> taskID res = 1"
proof -
  have "\<exists>out res. stream_run ([1] @ put_be64 1 @ [7] @ put_be64 0 @ []) (handleSingleTask (\<lambda>_. 0) demo_env None 0) out (Inr res)"
    unfolding handleSingleTask_def server_runUploadTask_def Let_def bind_task
    by (intro exI, rule run_calls, rule length_single, simp only: list.sel taskUpload_def simp_thms if_True bind_task,
        rule run_calls, rule length_put_be64, rule run_calls, rule get_put_be, rule run_calls,
        rule run_loop_step, simp, simp, simp add: chunkSize_def, rule run_calls, rule run_calls,
        rule run_calls, rule length_put_be64, rule run_calls, rule get_put_be, rule run_calls)
      (simp add: finish_task_def)
  then obtain out res where run: "stream_run ([1] @ put_be64 1 @ [7] @ put_be64 0) (handleSingleTask (\<lambda>_. 0) demo_env None 0) out (Inr res)"
    by auto
  show ?thesis using completed_task_transferred [OF run] run by (auto simp: taskUpload_def taskDownload_def)
qed

lemma step_recv_or:
  "length bs = n \<Longrightarrow> p = k bs \<Longrightarrow> side_step cl (recv_or what n k, bs @ inb) (p, inb) []"
  unfolding recv_or_def using step_RecvFull [of bs n cl "\<lambda>a. case a of Inl e \<Rightarrow> Done (Inl (StreamFailure what e)) | Inr x \<Rightarrow> k x" inb]
  by simp

text \<open>
  C35. Nine bytes of any client stop the server: a download request for a size of \<open>2^63\<close> or more
  makes the allocation of its data panic, and a panic in a goroutine ends the process.
\<close>

theorem huge_download_crashes:
  assumes "2 ^ 63 \<le> unat sz"
  shows "net_step\<^sup>*\<^sup>*
    ((Send (taskDownload # put_be64 sz) (\<lambda>_. Done ()), []), (handleSingleTask oor env pm taskSeq, []))
    ((Done (), []), (Crash (Explicit ''makeslice: len out of range''), []))"
proof -
  let ?p = "Done () :: unit prog" and ?s = "handleSingleTask oor env pm taskSeq"
  let ?d = "prog_bind (server_runDownloadTask oor env) (finish_task (next_task_id taskSeq) ''download'' pm)"
  have panic: "make_download sz = Panic (Explicit ''makeslice: len out of range'')" using assms by (simp add: make_download_def)
  have "net_step ((Send (taskDownload # put_be64 sz) (\<lambda>_. Done ()), []), (?s, []))
      ((?p, []), (?s, [] @ [taskDownload] @ put_be64 sz))"
    using net_left [where r = "(?s, [])", OF step_Send] by simp
  moreover have "net_step ((?p, []), (?s, [] @ [taskDownload] @ put_be64 sz)) ((?p, []), (?d, put_be64 sz))"
  proof -
    have "side_step True (?s, [taskDownload] @ put_be64 sz) (?d, put_be64 sz) []"
      unfolding handleSingleTask_def by (rule step_recv_or) (simp_all add: taskDownload_def taskUpload_def)
    then show ?thesis using net_right [of "(?p, [])" "(?s, [taskDownload] @ put_be64 sz)"] by simp
  qed
  moreover have "net_step ((?p, []), (?d, put_be64 sz)) ((?p, []), (Crash (Explicit ''makeslice: len out of range''), []))"
  proof -
    have "side_step True (?d, put_be64 sz @ []) (Crash (Explicit ''makeslice: len out of range''), []) []"
      unfolding server_runDownloadTask_def bind_task by (rule step_recv_or) (simp_all add: panic compute_def)
    then show ?thesis using net_right [of "(?p, [])" "(?d, put_be64 sz)"] by simp
  qed
  ultimately show ?thesis by (meson converse_rtranclp_into_rtranclp rtranclp.rtrancl_refl)
qed

theorem huge_download_crashes_witness:
  "net_step\<^sup>*\<^sup>*
    ((Send (taskDownload # put_be64 9223372036854775808) (\<lambda>_. Done ()), []), (handleSingleTask (\<lambda>_. 0) demo_env None 0, []))
    ((Done (), []), (Crash (Explicit ''makeslice: len out of range''), []))"
  by (rule huge_download_crashes) simp

text \<open>
  C34. The loss the server writes down for a client is the one the client measured, up to a ten
  thousandth and its rounding, and it lies between 0 and 100 percent; here the client's recorders
  together saw no more losses than sent packets in the time of the task.
\<close>

theorem client_loss_reported:
  assumes "te_pre envc = Some stats" "te_post envc = Some (fst (record_all evs (stats, rs)))"
    and "\<forall>e \<in> set evs. fst e < length rs"
    and "one_rtt_lost (map snd evs) \<le> one_rtt_sent (map snd evs)" "one_rtt_sent (map snd evs) \<le> 2 ^ 46"
    and "transfer_done kind oorc envc envs pm taskSeq n c (Inr res, rest)"
  shows "\<exists>a b. env_loss envc = Fin a \<and> clientLossPct res = Fin b \<and> 0 \<le> b \<and> b \<le> 100 \<and> \<bar>b - a\<bar> < 1 / 9999"
proof -
  obtain a where a: "env_loss envc = Fin a" "0 \<le> a" "a \<le> 100" using recorded_loss [OF assms(1-5)] by blast
  moreover have "clientLossPct res = loss_from_wire (loss_to_wire oorc (env_loss envc))"
    using assms(6) by (simp add: transfer_done_def task_result_def case_prod_beta)
  ultimately show ?thesis using loss_wire_accurate [OF a(2,3), of oorc] by auto
qed

definition demo_events :: "(nat \<times> qlog_event) list" where
  "demo_events = [(0, PacketSent PacketType1RTT), (1, PacketSent PacketType1RTT), (0, PacketSent OtherPacketType),
     (1, PacketLost PacketType1RTT)]"

theorem client_loss_reported_witness:
  "\<exists>envc res a b. te_post envc = Some \<lparr>ls_sent = 12, ls_lost = 3\<rparr> \<and>
    transfer_done ''upload'' (\<lambda>_. 0) envc demo_env None 0 5 (Inr (client_speed 5 envc, Fin a), []) (Inr res, []) \<and>
    clientLossPct res = Fin b \<and> \<bar>b - a\<bar> < 1 / 9999"
proof -
  define stats where "stats = \<lparr>ls_sent = 10, ls_lost = 2 :: u64\<rparr>"
  define rs where "rs = replicate 2 (AddProducer (makeLossTracer False (\<lambda>_. True)))"
  define e where "e = demo_env\<lparr>te_pre := Some stats, te_post := Some (fst (record_all demo_events (stats, rs)))\<rparr>"
  obtain res where d: "transfer_done ''upload'' (\<lambda>_. 0) e demo_env None 0 5 (Inr (client_speed 5 e, env_loss e), []) (Inr res, [])"
    by (auto simp: transfer_done_def)
  have ok: "\<forall>x \<in> set demo_events. fst x < length rs" by (simp add: demo_events_def rs_def)
  have "te_post e = Some \<lparr>ls_sent = 12, ls_lost = 3\<rparr>"
    by (simp add: e_def record_all_stats [OF ok], simp add: demo_events_def stats_def count_event_def)
  moreover have "\<exists>a b. env_loss e = Fin a \<and> clientLossPct res = Fin b \<and> 0 \<le> b \<and> b \<le> 100 \<and> \<bar>b - a\<bar> < 1 / 9999"
    by (rule client_loss_reported [OF _ _ ok _ _ d])
      (simp_all add: e_def demo_events_def one_rtt_sent_def one_rtt_lost_def)
  ultimately show ?thesis using d by metis
qed

end
