(* ===== verification/Results_Csv.thy ===== *)
theory Results_Csv
  imports Transfer_Tasks
begin

text \<open>
  \<open>appendResultsCSV\<close> and \<open>handleConn\<close> of \<open>server/main.go\<close>: the formatting of a result, the file
  as a text that may not exist, and the end of a connection.
\<close>

section \<open>Formatting\<close>

text \<open>
  \<open>%.nf\<close> for \<open>n > 0\<close>: the exact value rounded to \<open>n\<close> decimal places, ties to even.
\<close>

definition pad_zeros :: "nat \<Rightarrow> string \<Rightarrow> string" where
  "pad_zeros n s = replicate (n - length s) (CHR ''0'') @ s"

fun fmt_float :: "nat \<Rightarrow> f64 \<Rightarrow> string" where
  "fmt_float n (Fin q) =
     (let m = nat (round_even (\<bar>q\<bar> * 10 ^ n))
      in (if q < 0 then ''-'' else '''') @ dec_nat (m div 10 ^ n) @ ''.'' @ pad_zeros n (dec_nat (m mod 10 ^ n)))"
| "fmt_float n PInf = ''+Inf''"
| "fmt_float n NInf = ''-Inf''"
| "fmt_float n NaN = ''NaN''"

section \<open>The file\<close>

definition newline :: char where "newline = CHR 0x0A"

definition csv_header :: "string list" where
  "csv_header = [''SlotDuration'', ''TaskID'', ''TaskType'', ''SpeedMBps'', ''CPU'', ''MemMB'', ''ClientLossPct'', ''ServerLossPct'']"

definition csv_record :: "int \<Rightarrow> taskResult \<Rightarrow> string list" where
  "csv_record slotMs res =
     [dec_int slotMs, dec_nat (unat (taskID res)), taskType res, fmt_float 2 (speedMBps res),
      fmt_float 1 (cpuAvg res), fmt_float 1 (memAvgMB res), fmt_float 4 (clientLossPct res), fmt_float 4 (serverLossPct res)]"

text \<open>\<open>csv.Writer.Write\<close> on fields that need no quotes.\<close>

definition csv_line :: "string list \<Rightarrow> string" where
  "csv_line flds = join '','' flds @ [newline]"

text \<open>
  The answers of the system: an error of \<open>os.Stat\<close> other than the absence of the file, an error
  of \<open>os.OpenFile\<close>, and an error of the flush with the number of bytes it wrote. Opening creates
  the file.
\<close>

record csv_os =
  os_stat :: "string option"
  os_open :: "string option"
  os_flush :: "(string \<times> nat) option"

text \<open>
  The accesses to the file after \<open>os.Stat\<close>: opening creates it, and the flush appends what the
  writer holds, which depends on what \<open>os.Stat\<close> had found.
\<close>

definition csv_open :: "csv_os \<Rightarrow> string option \<Rightarrow> string option \<times> string option" where
  "csv_open os file =
     (case os_open os of
        Some err \<Rightarrow> (Some err, file)
      | None \<Rightarrow> (None, Some (case file of Some t \<Rightarrow> t | None \<Rightarrow> [])))"

definition csv_flush :: "csv_os \<Rightarrow> bool \<Rightarrow> int \<Rightarrow> taskResult \<Rightarrow> string option \<Rightarrow> string option \<times> string option" where
  "csv_flush os fileExists slotMs res file =
     (let content = (case file of Some t \<Rightarrow> t | None \<Rightarrow> []);
          buffered = (if \<not> fileExists then csv_line csv_header else []) @ csv_line (csv_record slotMs res)
      in case os_flush os of
           Some (err, k) \<Rightarrow> (Some err, Some (content @ take k buffered))
         | None \<Rightarrow> (None, Some (content @ buffered)))"

definition appendResultsCSV :: "csv_os \<Rightarrow> int \<Rightarrow> taskResult \<Rightarrow> string option \<Rightarrow> string option \<times> string option" where
  "appendResultsCSV os slotMs res file =
     (case os_stat os of
        Some err \<Rightarrow> (Some err, file)
      | None \<Rightarrow>
          let fileExists = file \<noteq> None
          in case csv_open os file of
               (Some err, file') \<Rightarrow> (Some err, file')
             | (None, file') \<Rightarrow> csv_flush os fileExists slotMs res file')"

section \<open>A connection\<close>

definition startProcessMonitor :: "bool \<Rightarrow> u64 \<Rightarrow> proc_files \<Rightarrow> int \<Rightarrow> ProcessMonitor option" where
  "startProcessMonitor linux pagesize fs pid =
     (if \<not> linux then None
      else case StartProcessMonitor pagesize fs pid (100 * Millisecond) of Inl _ \<Rightarrow> None | Inr pm \<Rightarrow> Some pm)"

text \<open>
  \<open>handleConn\<close> with the answer of \<open>AcceptStream\<close>, the monitor with the samples it has when the task ends,
  and the file. A failure to write the file is only logged.
\<close>

definition handleConn ::
  "(f64 \<Rightarrow> u64) \<Rightarrow> config \<Rightarrow> csv_os \<Rightarrow> task_env \<Rightarrow> ProcessMonitor option \<Rightarrow> u64 \<Rightarrow> stream_error option \<Rightarrow> string option \<Rightarrow>
    (task_error option \<times> string option) prog" where
  "handleConn oor cfg os env pm taskSeq accept file =
     (case accept of
        Some e \<Rightarrow> Done (Some (StreamFailure ''accept stream'' e), file)
      | None \<Rightarrow> prog_bind (handleSingleTask oor env pm taskSeq) (\<lambda>r. case r of
            Inl e \<Rightarrow> Done (Some e, file)
          | Inr res \<Rightarrow> Done (None, snd (appendResultsCSV os (Milliseconds (SlotDuration cfg)) res file))))"

section \<open>The file is a table\<close>

definition plain :: "string \<Rightarrow> bool" where
  "plain s \<longleftrightarrow> CHR '','' \<notin> set s \<and> newline \<notin> set s"

lemma plain_append [simp]: "plain (s @ t) \<longleftrightarrow> plain s \<and> plain t"
  by (auto simp: plain_def)

lemma plain_Nil [simp]: "plain []"
  by (simp add: plain_def)

lemma plain_Cons [simp]: "plain (c # s) \<longleftrightarrow> c \<noteq> CHR '','' \<and> c \<noteq> newline \<and> plain s"
  by (auto simp: plain_def)

lemma plain_dec_nat [simp]: "plain (dec_nat n)"
  by (simp add: plain_def newline_def not_in_dec_nat digit_val_def)

lemma plain_dec_int [simp]: "plain (dec_int i)"
  by (simp add: dec_int_def newline_def)

lemma plain_fmt [simp]: "plain (fmt_float n x)"
proof -
  have "plain (replicate k (CHR ''0''))" for k by (simp add: plain_def newline_def)
  then show ?thesis by (cases x) (simp_all add: Let_def pad_zeros_def newline_def)
qed

lemma split_line:
  assumes "\<forall>s \<in> set flds. plain s" "flds \<noteq> []"
  shows "split_on (CHR '','') (join '','' flds) = flds" "newline \<notin> set (join '','' flds)"
proof -
  show "split_on (CHR '','') (join '','' flds) = flds"
    using assms by (induction "'',''" flds rule: join.induct) (auto simp: plain_def split_on_simps)
  show "newline \<notin> set (join '','' flds)"
    using assms by (induction "'',''" flds rule: join.induct) (auto simp: plain_def newline_def)
qed

text \<open>Reading a table back: lines, then columns.\<close>

definition read_csv :: "string \<Rightarrow> string list list" where
  "read_csv text = map (split_on (CHR '','')) (butlast (split_on newline text))"

lemma split_on_not_Nil [simp]: "split_on c s \<noteq> []"
  by (induction s) (auto split: list.splits)

lemma read_csv_lines:
  assumes "\<forall>flds \<in> set rows. flds \<noteq> [] \<and> (\<forall>s \<in> set flds. plain s)"
  shows "read_csv (concat (map csv_line rows)) = rows"
  using assms
proof (induction rows)
  case (Cons flds rows)
  then have "split_on newline (csv_line flds @ concat (map csv_line rows)) =
      join '','' flds # split_on newline (concat (map csv_line rows))"
    by (simp add: csv_line_def split_line split_on_sep)
  then show ?case using Cons by (simp add: read_csv_def split_line)
qed (simp add: read_csv_def)

text \<open>The calls of one or more server processes, one after the other.\<close>

fun append_all :: "(csv_os \<times> int \<times> taskResult) list \<Rightarrow> string option \<Rightarrow> string option" where
  "append_all [] file = file"
| "append_all ((os, slotMs, res) # calls) file = append_all calls (snd (appendResultsCSV os slotMs res file))"

definition csv_call_ok :: "csv_os \<times> int \<times> taskResult \<Rightarrow> bool" where
  "csv_call_ok c \<longleftrightarrow> os_stat (fst c) = None \<and> os_open (fst c) = None"

definition call_record :: "csv_os \<times> int \<times> taskResult \<Rightarrow> string list" where
  "call_record c = csv_record (fst (snd c)) (snd (snd c))"

lemma append_all_text:
  assumes "\<forall>c \<in> set calls. os_flush (fst c) = None"
  shows "append_all calls (Some t) = Some (t @ concat (map (csv_line \<circ> call_record) (filter csv_call_ok calls)))"
    "append_all calls None = (if filter csv_call_ok calls = [] then None
       else Some (csv_line csv_header @ concat (map (csv_line \<circ> call_record) (filter csv_call_ok calls))))"
proof -
  have A: "append_all cs (Some t) = Some (t @ concat (map (csv_line \<circ> call_record) (filter csv_call_ok cs)))"
    if "\<forall>c \<in> set cs. os_flush (fst c) = None" for cs t
    using that
    by (induction cs "Some t" arbitrary: t rule: append_all.induct)
      (auto simp: appendResultsCSV_def csv_open_def csv_flush_def csv_call_ok_def call_record_def Let_def split: option.splits)
  show "append_all calls (Some t) = Some (t @ concat (map (csv_line \<circ> call_record) (filter csv_call_ok calls)))"
    using A assms .
  show "append_all calls None = (if filter csv_call_ok calls = [] then None
       else Some (csv_line csv_header @ concat (map (csv_line \<circ> call_record) (filter csv_call_ok calls))))"
    using assms
    by (induction calls "None :: string option" rule: append_all.induct)
      (auto simp: appendResultsCSV_def csv_open_def csv_flush_def csv_call_ok_def call_record_def Let_def A split: option.splits)
qed

section \<open>Properties\<close>

text \<open>
  C40. As long as no flush fails, \<open>results.csv\<close> is absent or a table: it reads back as the header
  and one row of eight columns for every call that could open it, in order, whatever the other
  calls met.
\<close>

theorem results_csv_is_table:
  assumes "\<forall>c \<in> set calls. os_flush (fst c) = None"
    and "\<forall>c \<in> set calls. taskType (snd (snd c)) \<in> {''upload'', ''download''}"
    and "append_all calls None = Some content"
  shows "read_csv content = csv_header # map call_record (filter csv_call_ok calls) \<and>
    (\<forall>row \<in> set (read_csv content). length row = 8)"
proof -
  let ?rows = "csv_header # map call_record (filter csv_call_ok calls)"
  have "\<forall>flds \<in> set ?rows. flds \<noteq> [] \<and> (\<forall>s \<in> set flds. plain s)"
    using assms(2) by (fastforce simp: csv_header_def call_record_def csv_record_def newline_def)
  moreover have "content = concat (map csv_line ?rows)"
    using append_all_text(2) [OF assms(1)] assms(3) by (simp split: if_splits add: comp_def)
  ultimately have "read_csv content = ?rows" using read_csv_lines by blast
  moreover have "\<forall>row \<in> set ?rows. length row = 8" by (simp add: csv_header_def call_record_def csv_record_def)
  ultimately show ?thesis by metis
qed

definition demo_result :: taskResult where
  "demo_result = \<lparr>taskID = 7, taskType = ''upload'', speedMBps = Fin (25 / 2), cpuAvg = Fin (1 / 4), memAvgMB = Fin 10,
     clientLossPct = Fin (1 / 8), serverLossPct = Fin 0\<rparr>"

definition demo_os :: "string option \<Rightarrow> csv_os" where
  "demo_os e = \<lparr>os_stat = None, os_open = e, os_flush = None\<rparr>"

theorem results_csv_is_table_witness:
  "\<exists>content. append_all [(demo_os None, 1500, demo_result), (demo_os (Some ''denied''), 1500, demo_result), (demo_os None, 1400, demo_result)] None = Some content \<and>
    map hd (read_csv content) = [''SlotDuration'', ''1500'', ''1400'']"
proof -
  let ?calls = "[(demo_os None, 1500, demo_result), (demo_os (Some ''denied''), 1500, demo_result), (demo_os None, 1400, demo_result)]"
  obtain content where t: "append_all ?calls None = Some content"
    by (simp add: appendResultsCSV_def csv_open_def csv_flush_def demo_os_def)
  have "read_csv content = csv_header # map call_record (filter csv_call_ok ?calls)"
    using results_csv_is_table [OF _ _ t] by (simp add: demo_os_def demo_result_def)
  then show ?thesis using t
    by (simp add: csv_call_ok_def demo_os_def call_record_def csv_record_def csv_header_def dec_int_def dec_nat.simps digit_char_def)
qed

text \<open>When the first flush writes nothing, the file stays without its header for ever.\<close>

lemma failed_flush_loses_header:
  assumes "os_stat os = None" "os_open os = None" "os_flush os = Some (err, 0)"
    and "\<forall>c \<in> set calls. os_flush (fst c) = None"
  shows "append_all ((os, slotMs, res) # calls) None = Some (concat (map (csv_line \<circ> call_record) (filter csv_call_ok calls)))"
  using append_all_text(1) [OF assms(4), of "[]"] assms(1-3) by (simp add: appendResultsCSV_def csv_open_def csv_flush_def Let_def)

end
