(* ===== verification/Server_Process.thy ===== *)
theory Server_Process
  imports Results_Csv
begin

text \<open>
  The server of one slot (\<open>main\<close> without \<open>-auto\<close>): its accept loop starts a goroutine for every
  connection, and all of them share the counter \<open>taskSeq\<close> and the file \<open>results.csv\<close>. A step is
  one access to what is shared; between its steps a goroutine only touches its own stream.
\<close>

section \<open>Steps\<close>

text \<open>
  How far a connection is: accepted, with its task number, with the result of its task, past
  \<open>os.Stat\<close>, past \<open>os.OpenFile\<close>, ended without a row, or with its row written.
\<close>

datatype conn_phase =
    Accepted
  | Running u64
  | HasResult taskResult
  | Checked bool taskResult
  | Opened bool taskResult
  | Ended u64
  | Written taskResult

record server_proc =
  sp_taskSeq :: u64
  sp_file :: "string option"
  sp_conns :: "conn_phase list"

definition init_proc :: server_proc where
  "init_proc = \<lparr>sp_taskSeq = 0, sp_file = None, sp_conns = []\<rparr>"

text \<open>No flush fails here; what happens then is in \<open>Results_Csv\<close>.\<close>

inductive proc_step :: "int \<Rightarrow> server_proc \<Rightarrow> server_proc \<Rightarrow> bool" for slotMs where
  step_accept: "proc_step slotMs s (s\<lparr>sp_conns := sp_conns s @ [Accepted]\<rparr>)"
| step_start: "i < length (sp_conns s) \<Longrightarrow> sp_conns s ! i = Accepted \<Longrightarrow>
    proc_step slotMs s (s\<lparr>sp_taskSeq := next_task_id (sp_taskSeq s),
      sp_conns := (sp_conns s)[i := Running (next_task_id (sp_taskSeq s))]\<rparr>)"
| step_fail: "i < length (sp_conns s) \<Longrightarrow> sp_conns s ! i = Running tid \<Longrightarrow>
    proc_step slotMs s (s\<lparr>sp_conns := (sp_conns s)[i := Ended tid]\<rparr>)"
| step_result: "i < length (sp_conns s) \<Longrightarrow> sp_conns s ! i = Running tid \<Longrightarrow>
    kind \<in> {''upload'', ''download''} \<Longrightarrow>
    proc_step slotMs s (s\<lparr>sp_conns := (sp_conns s)[i := HasResult (task_result tid kind pm nm)]\<rparr>)"
| step_stat: "i < length (sp_conns s) \<Longrightarrow> sp_conns s ! i = HasResult res \<Longrightarrow>
    proc_step slotMs s (s\<lparr>sp_conns := (sp_conns s)[i := Checked (sp_file s \<noteq> None) res]\<rparr>)"
| step_stat_fails: "i < length (sp_conns s) \<Longrightarrow> sp_conns s ! i = HasResult res \<Longrightarrow>
    proc_step slotMs s (s\<lparr>sp_conns := (sp_conns s)[i := Ended (taskID res)]\<rparr>)"
| step_open: "i < length (sp_conns s) \<Longrightarrow> sp_conns s ! i = Checked ex res \<Longrightarrow> csv_open os (sp_file s) = (err, fl) \<Longrightarrow>
    proc_step slotMs s (s\<lparr>sp_file := fl,
      sp_conns := (sp_conns s)[i := (case err of None \<Rightarrow> Opened ex res | Some _ \<Rightarrow> Ended (taskID res))]\<rparr>)"
| step_flush: "i < length (sp_conns s) \<Longrightarrow> sp_conns s ! i = Opened ex res \<Longrightarrow> os_flush os = None \<Longrightarrow>
    csv_flush os ex slotMs res (sp_file s) = (err, fl) \<Longrightarrow>
    proc_step slotMs s (s\<lparr>sp_file := fl, sp_conns := (sp_conns s)[i := Written res]\<rparr>)"

section \<open>The shared state\<close>

fun phase_id :: "conn_phase \<Rightarrow> u64 option" where
  "phase_id Accepted = None"
| "phase_id (Running tid) = Some tid"
| "phase_id (HasResult res) = Some (taskID res)"
| "phase_id (Checked ex res) = Some (taskID res)"
| "phase_id (Opened ex res) = Some (taskID res)"
| "phase_id (Ended tid) = Some tid"
| "phase_id (Written res) = Some (taskID res)"

definition numbered :: "server_proc \<Rightarrow> nat" where
  "numbered s = length (filter (\<lambda>p. phase_id p \<noteq> None) (sp_conns s))"

fun phase_ok :: "bool \<Rightarrow> conn_phase \<Rightarrow> bool" where
  "phase_ok exists_now (HasResult res) \<longleftrightarrow> taskType res \<in> {''upload'', ''download''}"
| "phase_ok exists_now (Checked ex res) \<longleftrightarrow> taskType res \<in> {''upload'', ''download''} \<and> (ex \<longrightarrow> exists_now)"
| "phase_ok exists_now (Opened ex res) \<longleftrightarrow> taskType res \<in> {''upload'', ''download''} \<and> exists_now"
| "phase_ok exists_now (Written res) \<longleftrightarrow> taskType res \<in> {''upload'', ''download''}"
| "phase_ok exists_now _ = True"

text \<open>A connection that is about to write the header.\<close>

fun heading :: "conn_phase \<Rightarrow> bool" where
  "heading (Opened ex res) \<longleftrightarrow> \<not> ex"
| "heading _ = False"

fun written :: "int \<Rightarrow> conn_phase \<Rightarrow> string list multiset" where
  "written slotMs (Written res) = {#csv_record slotMs res#}"
| "written slotMs _ = {#}"

text \<open>The rows of the file; besides headers they are the rows that were written.\<close>

definition file_rows :: "string option \<Rightarrow> string list list \<Rightarrow> bool" where
  "file_rows fl rows \<longleftrightarrow> (case fl of None \<Rightarrow> rows = [] | Some t \<Rightarrow> t = concat (map csv_line rows))"

definition rows_written :: "int \<Rightarrow> server_proc \<Rightarrow> string list list \<Rightarrow> bool" where
  "rows_written slotMs s rows \<longleftrightarrow>
     mset (filter (\<lambda>row. row \<noteq> csv_header) rows) = sum_mset (image_mset (written slotMs) (mset (sp_conns s)))"

definition file_inv :: "int \<Rightarrow> server_proc \<Rightarrow> bool" where
  "file_inv slotMs s \<longleftrightarrow>
     (\<exists>rows. file_rows (sp_file s) rows \<and> rows_written slotMs s rows \<and>
        (sp_file s \<noteq> None \<longrightarrow> csv_header \<in> set rows \<or> (\<exists>p \<in> set (sp_conns s). heading p))) \<and>
     (\<forall>p \<in> set (sp_conns s). phase_ok (sp_file s \<noteq> None) p)"

text \<open>Task numbers up to \<open>k\<close>, no two the same.\<close>

definition distinct_upto :: "nat \<Rightarrow> (nat \<Rightarrow> u64 option) \<Rightarrow> nat \<Rightarrow> bool" where
  "distinct_upto n f k \<longleftrightarrow> (\<forall>i < n. \<forall>a. f i = Some a \<longrightarrow> unat a \<le> k) \<and>
     (\<forall>i < n. \<forall>j < n. \<forall>a. f i = Some a \<longrightarrow> f j = Some a \<longrightarrow> i = j)"

definition ids_inv :: "server_proc \<Rightarrow> bool" where
  "ids_inv s \<longleftrightarrow> (length (sp_conns s) < 2 ^ 64 \<longrightarrow> unat (sp_taskSeq s) = numbered s \<and>
     distinct_upto (length (sp_conns s)) (\<lambda>i. phase_id (sp_conns s ! i)) (numbered s))"

lemma distinct_upto_cong: "(\<And>i. i < n \<Longrightarrow> f i = g i) \<Longrightarrow> distinct_upto n f k = distinct_upto n g k"
  by (auto simp: distinct_upto_def)

lemma distinct_upto_new:
  assumes "distinct_upto n f k" "unat a = Suc k"
  shows "distinct_upto n (f(i := Some a)) (Suc k)"
proof -
  have "f j \<noteq> Some a" if "j < n" for j using assms that unfolding distinct_upto_def by (metis Suc_n_not_le_n)
  then show ?thesis using assms unfolding distinct_upto_def by (auto simp: le_SucI)
qed

lemma distinct_upto_none: "distinct_upto n f k \<Longrightarrow> f n = None \<Longrightarrow> distinct_upto (Suc n) f k"
  by (auto simp: distinct_upto_def less_Suc_eq)

lemma record_not_header: "taskType res \<in> {''upload'', ''download''} \<Longrightarrow> csv_record slotMs res \<noteq> csv_header"
  by (auto simp: csv_record_def csv_header_def)

lemma phase_ok_True: "phase_ok b p \<Longrightarrow> phase_ok True p"
  by (cases p) auto

text \<open>Replacing a phase by one that has written the same.\<close>

lemma written_update:
  assumes "i < length ps"
  shows "sum_mset (image_mset (written slotMs) (mset (ps[i := p]))) + written slotMs (ps ! i) =
    sum_mset (image_mset (written slotMs) (mset ps)) + written slotMs p"
proof -
  have "mset ps = add_mset (ps ! i) (mset ps - {#ps ! i#})" using assms by simp
  then have "sum_mset (image_mset (written slotMs) (mset ps)) =
      written slotMs (ps ! i) + sum_mset (image_mset (written slotMs) (mset ps - {#ps ! i#}))"
    by (metis image_mset_add_mset sum_mset.insert)
  then show ?thesis using assms by (simp add: mset_update)
qed

lemma heading_update:
  assumes "i < length ps" "\<not> heading (ps ! i)" "\<exists>p \<in> set ps. heading p"
  shows "\<exists>p \<in> set (ps[i := p']). heading p"
proof -
  obtain j where j: "j < length ps" "heading (ps ! j)" using assms(3) by (auto simp: in_set_conv_nth)
  then have "ps[i := p'] ! j = ps ! j" using assms(2) by (cases "i = j") simp_all
  then show ?thesis using j nth_mem [of j "ps[i := p']"] by auto
qed

lemma file_inv_update:
  assumes "file_inv slotMs s" "i < length (sp_conns s)" "phase_ok (sp_file s \<noteq> None) p"
    and "written slotMs p = {#}" "written slotMs (sp_conns s ! i) = {#}" "\<not> heading (sp_conns s ! i)"
  shows "file_inv slotMs (s\<lparr>sp_conns := (sp_conns s)[i := p]\<rparr>)"
    "file_inv slotMs (s\<lparr>sp_taskSeq := q, sp_conns := (sp_conns s)[i := p]\<rparr>)"
proof -
  let ?ps = "(sp_conns s)[i := p]"
  obtain rows where rows: "file_rows (sp_file s) rows" "rows_written slotMs s rows"
      "sp_file s \<noteq> None \<longrightarrow> csv_header \<in> set rows \<or> (\<exists>p \<in> set (sp_conns s). heading p)" and
      ok: "\<forall>p \<in> set (sp_conns s). phase_ok (sp_file s \<noteq> None) p"
    using assms(1) unfolding file_inv_def by blast
  have "sp_file s \<noteq> None \<longrightarrow> csv_header \<in> set rows \<or> (\<exists>p \<in> set ?ps. heading p)"
    using rows(3) heading_update [OF assms(2,6), of p] by blast
  moreover have "rows_written slotMs (s\<lparr>sp_conns := ?ps\<rparr>) rows"
    using rows(2) written_update [OF assms(2), of slotMs p] assms(4,5) by (simp add: rows_written_def)
  moreover have "\<forall>q \<in> set ?ps. phase_ok (sp_file s \<noteq> None) q"
    using ok assms(3) by (auto dest!: subsetD [OF set_update_subset_insert])
  ultimately show "file_inv slotMs (s\<lparr>sp_conns := ?ps\<rparr>)" "file_inv slotMs (s\<lparr>sp_taskSeq := q, sp_conns := ?ps\<rparr>)"
    using rows(1) unfolding file_inv_def rows_written_def by auto
qed

lemma numbered_update:
  assumes "i < length ps"
  shows "length (filter P (ps[i := p])) + (if P (ps ! i) then 1 else 0) = length (filter P ps) + (if P p then 1 else 0)"
proof -
  have "length (filter P ps) = length (filter P (take i ps @ ps ! i # drop (Suc i) ps))"
    using assms by (simp add: id_take_nth_drop [symmetric])
  then show ?thesis using assms by (simp add: upd_conv_take_nth_drop)
qed

text \<open>Both invariants hold in every reachable state.\<close>

lemma ids_same:
  assumes "ids_inv s" "i < length (sp_conns s)" "phase_id p = phase_id (sp_conns s ! i)"
  shows "ids_inv (s\<lparr>sp_file := f, sp_conns := (sp_conns s)[i := p]\<rparr>)"
proof -
  have "phase_id ((sp_conns s)[i := p] ! j) = phase_id (sp_conns s ! j)" if "j < length (sp_conns s)" for j
    using assms(2,3) that by (cases "i = j") simp_all
  then have "distinct_upto (length (sp_conns s)) (\<lambda>j. phase_id ((sp_conns s)[i := p] ! j)) k =
      distinct_upto (length (sp_conns s)) (\<lambda>j. phase_id (sp_conns s ! j)) k" for k
    by (rule distinct_upto_cong)
  moreover have "numbered (s\<lparr>sp_file := f, sp_conns := (sp_conns s)[i := p]\<rparr>) = numbered s"
    using numbered_update [OF assms(2), of "\<lambda>p. phase_id p \<noteq> None" p] assms(3) by (simp add: numbered_def split: if_splits)
  ultimately show ?thesis using assms(1) by (simp add: ids_inv_def)
qed

lemma ids_start:
  assumes "ids_inv s" "i < length (sp_conns s)" "sp_conns s ! i = Accepted"
  shows "ids_inv (s\<lparr>sp_taskSeq := next_task_id (sp_taskSeq s), sp_conns := (sp_conns s)[i := Running (next_task_id (sp_taskSeq s))]\<rparr>)"
proof (cases "length (sp_conns s) < 2 ^ 64")
  case True
  let ?q = "next_task_id (sp_taskSeq s)" and ?ps = "(sp_conns s)[i := Running (next_task_id (sp_taskSeq s))]"
  let ?f = "\<lambda>i. phase_id (sp_conns s ! i)"
  have n: "length (filter (\<lambda>p. phase_id p \<noteq> None) ?ps) = Suc (numbered s)"
    using numbered_update [OF assms(2), of "\<lambda>p. phase_id p \<noteq> None" "Running ?q"] assms(3) by (simp add: numbered_def)
  have inv: "unat (sp_taskSeq s) = numbered s" "distinct_upto (length (sp_conns s)) ?f (numbered s)"
    using assms(1) True by (simp_all add: ids_inv_def)
  have "Suc (numbered s) \<le> length ?ps" unfolding n [symmetric] by (rule length_filter_le)
  then have "unat (sp_taskSeq s) + 1 < 2 ^ 64" using True inv(1) by simp
  then have q: "unat ?q = Suc (numbered s)" using inv(1) by (simp add: next_task_id_def unat_word_ariths)
  have "distinct_upto (length (sp_conns s)) (\<lambda>j. phase_id (?ps ! j)) (Suc (numbered s)) =
      distinct_upto (length (sp_conns s)) (?f(i := Some ?q)) (Suc (numbered s))"
    by (rule distinct_upto_cong) (use assms(2) in auto)
  then show ?thesis using distinct_upto_new [OF inv(2) q, of i] n q by (simp add: ids_inv_def numbered_def)
qed (simp add: ids_inv_def)

lemma ids_accept:
  assumes "ids_inv s"
  shows "ids_inv (s\<lparr>sp_conns := sp_conns s @ [Accepted]\<rparr>)"
proof -
  have "distinct_upto (length (sp_conns s)) (\<lambda>i. phase_id ((sp_conns s @ [Accepted]) ! i)) k =
      distinct_upto (length (sp_conns s)) (\<lambda>i. phase_id (sp_conns s ! i)) k" for k
    by (rule distinct_upto_cong) (simp add: nth_append)
  moreover have "numbered (s\<lparr>sp_conns := sp_conns s @ [Accepted]\<rparr>) = numbered s" by (simp add: numbered_def)
  ultimately show ?thesis
    using assms distinct_upto_none [of "length (sp_conns s)" "\<lambda>i. phase_id ((sp_conns s @ [Accepted]) ! i)" "numbered s"]
    by (simp add: ids_inv_def)
qed

lemma ids_inv_step:
  assumes "proc_step slotMs s s'" "ids_inv s"
  shows "ids_inv s'"
  using assms
proof cases
  case step_accept
  then show ?thesis using assms(2) ids_accept by simp
next
  case (step_start i)
  then show ?thesis using assms(2) ids_start by simp
next
  case (step_fail i tid)
  then show ?thesis using ids_same [OF assms(2), of i "Ended tid" "sp_file s"] by simp
next
  case (step_result i tid kind pm nm)
  then show ?thesis using ids_same [OF assms(2), of i "HasResult (task_result tid kind pm nm)" "sp_file s"]
    by (simp add: task_result_def case_prod_beta)
next
  case (step_stat i res)
  then show ?thesis using ids_same [OF assms(2), of i "Checked (sp_file s \<noteq> None) res" "sp_file s"] by simp
next
  case (step_stat_fails i res)
  then show ?thesis using ids_same [OF assms(2), of i "Ended (taskID res)" "sp_file s"] by simp
next
  case (step_open i ex res os err fl)
  then show ?thesis using ids_same [OF assms(2), of i "case err of None \<Rightarrow> Opened ex res | Some _ \<Rightarrow> Ended (taskID res)" fl]
    by (simp split: option.splits)
next
  case (step_flush i ex res os err fl)
  then show ?thesis using ids_same [OF assms(2), of i "Written res" fl] by simp
qed

lemma file_inv_open:
  assumes "file_inv slotMs s" "i < length (sp_conns s)" "sp_conns s ! i = Checked ex res"
    and "csv_open os (sp_file s) = (err, fl)"
  shows "file_inv slotMs (s\<lparr>sp_file := fl,
    sp_conns := (sp_conns s)[i := (case err of None \<Rightarrow> Opened ex res | Some _ \<Rightarrow> Ended (taskID res))]\<rparr>)"
proof (cases "os_open os")
  case (Some e)
  then have "err = Some e" "fl = sp_file s" using assms(4) by (simp_all add: csv_open_def)
  then show ?thesis using file_inv_update(1) [OF assms(1,2), of "Ended (taskID res)"] assms(3) by simp
next
  case None
  obtain rows where rows: "file_rows (sp_file s) rows" "rows_written slotMs s rows"
      "sp_file s \<noteq> None \<longrightarrow> csv_header \<in> set rows \<or> (\<exists>p \<in> set (sp_conns s). heading p)" and
      ok: "\<forall>p \<in> set (sp_conns s). phase_ok (sp_file s \<noteq> None) p"
    using assms(1) unfolding file_inv_def by blast
  let ?ps = "(sp_conns s)[i := Opened ex res]"
  have p: "taskType res \<in> {''upload'', ''download''}" "ex \<longrightarrow> sp_file s \<noteq> None"
    using ok assms(2,3) nth_mem [of i "sp_conns s"] by fastforce+
  have e: "err = None" "fl \<noteq> None" "file_rows fl rows"
    using assms(4) None rows(1) by (auto simp: csv_open_def file_rows_def split: option.splits)
  have "rows_written slotMs (s\<lparr>sp_file := fl, sp_conns := ?ps\<rparr>) rows"
    using rows(2) written_update [OF assms(2), of slotMs "Opened ex res"] assms(3) by (simp add: rows_written_def)
  moreover have "csv_header \<in> set rows \<or> (\<exists>p \<in> set ?ps. heading p)"
  proof (cases ex)
    case True
    then show ?thesis using p(2) rows(3) heading_update [OF assms(2), of "Opened ex res"] assms(3) by auto
  next
    case False
    then show ?thesis using set_update_memI [OF assms(2), of "Opened ex res"] by (intro disjI2 bexI) simp_all
  qed
  moreover have "\<forall>q \<in> set ?ps. phase_ok True q"
    using ok p(1) by (auto intro: phase_ok_True dest!: subsetD [OF set_update_subset_insert])
  ultimately show ?thesis using e unfolding file_inv_def by auto
qed

lemma file_inv_flush:
  assumes "file_inv slotMs s" "i < length (sp_conns s)" "sp_conns s ! i = Opened ex res" "os_flush os = None"
    and "csv_flush os ex slotMs res (sp_file s) = (err, fl)"
  shows "file_inv slotMs (s\<lparr>sp_file := fl, sp_conns := (sp_conns s)[i := Written res]\<rparr>)"
proof -
  obtain rows where rows: "file_rows (sp_file s) rows" "rows_written slotMs s rows"
      "sp_file s \<noteq> None \<longrightarrow> csv_header \<in> set rows \<or> (\<exists>p \<in> set (sp_conns s). heading p)" and
      ok: "\<forall>p \<in> set (sp_conns s). phase_ok (sp_file s \<noteq> None) p"
    using assms(1) unfolding file_inv_def by blast
  let ?new = "(if ex then [] else [csv_header]) @ [csv_record slotMs res]" and ?ps = "(sp_conns s)[i := Written res]"
  have p: "taskType res \<in> {''upload'', ''download''}" "sp_file s \<noteq> None"
    using ok assms(2,3) nth_mem [of i "sp_conns s"] by fastforce+
  have fl: "fl \<noteq> None" "file_rows fl (rows @ ?new)"
    using assms(4,5) rows(1) by (auto simp: csv_flush_def file_rows_def Let_def split: option.splits)
  have "rows_written slotMs (s\<lparr>sp_file := fl, sp_conns := ?ps\<rparr>) (rows @ ?new)"
    using rows(2) written_update [OF assms(2), of slotMs "Written res"] assms(3) record_not_header [OF p(1)]
    by (simp add: rows_written_def)
  moreover have "csv_header \<in> set (rows @ ?new) \<or> (\<exists>p \<in> set ?ps. heading p)"
    using p(2) rows(3) heading_update [OF assms(2), of "Written res"] assms(3) by (cases ex) auto
  moreover have "\<forall>q \<in> set ?ps. phase_ok True q"
    using ok p(1) by (auto intro: phase_ok_True dest!: subsetD [OF set_update_subset_insert])
  ultimately show ?thesis using fl unfolding file_inv_def by auto
qed

lemma file_inv_step:
  assumes "proc_step slotMs s s'" "file_inv slotMs s"
  shows "file_inv slotMs s'"
  using assms
proof cases
  case step_accept
  then show ?thesis using assms(2) by (auto simp: file_inv_def rows_written_def)
next
  case (step_open i ex res os err fl)
  then show ?thesis using file_inv_open [OF assms(2)] by simp
next
  case (step_flush i ex res os err fl)
  then show ?thesis using file_inv_flush [OF assms(2)] by simp
next
  case (step_result i tid kind pm nm)
  then show ?thesis
    using file_inv_update(1) [OF assms(2), of i "HasResult (task_result tid kind pm nm)"] by (simp add: task_result_def case_prod_beta)
next
  case (step_stat i res)
  have "phase_ok (sp_file s \<noteq> None) (HasResult res)"
    using assms(2) step_stat nth_mem [of i "sp_conns s"] unfolding file_inv_def by metis
  then show ?thesis using step_stat file_inv_update(1) [OF assms(2), of i "Checked (sp_file s \<noteq> None) res"] by simp
qed (use assms(2) in \<open>simp_all add: file_inv_update\<close>)

lemma reachable_inv: "(proc_step slotMs)\<^sup>*\<^sup>* init_proc s \<Longrightarrow> file_inv slotMs s \<and> ids_inv s"
proof (induction rule: rtranclp_induct)
  case base
  show ?case by (simp add: init_proc_def file_inv_def file_rows_def rows_written_def ids_inv_def numbered_def distinct_upto_def)
next
  case (step s s')
  then show ?case using file_inv_step ids_inv_step by blast
qed

section \<open>Properties\<close>

text \<open>
  C39. Whatever the order in which the goroutines of the single-slot server work, the results file
  is absent or a table that has the header, or is about to get it; its other rows are exactly the
  results written, each once; and no two connections have the same task number (of the first
  \<open>2^64\<close>).
\<close>

theorem single_server_file:
  assumes "(proc_step slotMs)\<^sup>*\<^sup>* init_proc s" "length (sp_conns s) < 2 ^ 64"
  shows "(case sp_file s of None \<Rightarrow> \<forall>res. Written res \<notin> set (sp_conns s)
      | Some t \<Rightarrow> (csv_header \<in> set (read_csv t) \<or> (\<exists>res. Opened False res \<in> set (sp_conns s))) \<and>
          mset (filter (\<lambda>row. row \<noteq> csv_header) (read_csv t)) = sum_mset (image_mset (written slotMs) (mset (sp_conns s)))) \<and>
    (\<forall>i < length (sp_conns s). \<forall>j < length (sp_conns s). \<forall>a.
       phase_id (sp_conns s ! i) = Some a \<longrightarrow> phase_id (sp_conns s ! j) = Some a \<longrightarrow> i = j)"
proof
  have inv: "file_inv slotMs s" "ids_inv s" using reachable_inv [OF assms(1)] by simp_all
  show "\<forall>i < length (sp_conns s). \<forall>j < length (sp_conns s). \<forall>a.
       phase_id (sp_conns s ! i) = Some a \<longrightarrow> phase_id (sp_conns s ! j) = Some a \<longrightarrow> i = j"
    using inv(2) assms(2) by (simp add: ids_inv_def distinct_upto_def)
  obtain rows where rows: "file_rows (sp_file s) rows" "rows_written slotMs s rows"
      "sp_file s \<noteq> None \<longrightarrow> csv_header \<in> set rows \<or> (\<exists>p \<in> set (sp_conns s). heading p)" and
      ok: "\<forall>p \<in> set (sp_conns s). phase_ok (sp_file s \<noteq> None) p"
    using inv(1) unfolding file_inv_def by blast
  have one: "row \<in># sum_mset (image_mset (written slotMs) (mset ps)) \<longleftrightarrow>
      (\<exists>res. Written res \<in> set ps \<and> row = csv_record slotMs res)" for row ps
  proof (induction ps)
    case (Cons p ps)
    then show ?case by (cases p) auto
  qed simp
  have "flds \<noteq> [] \<and> (\<forall>x \<in> set flds. plain x)" if "flds \<in> set rows" for flds
  proof (cases "flds = csv_header")
    case False
    then have "flds \<in># mset (filter (\<lambda>row. row \<noteq> csv_header) rows)" using that by simp
    then obtain res where res: "Written res \<in> set (sp_conns s)" "flds = csv_record slotMs res"
      using rows(2) one unfolding rows_written_def by metis
    then have "taskType res \<in> {''upload'', ''download''}" using ok by fastforce
    then show ?thesis using res(2) by (auto simp: csv_record_def newline_def)
  qed (auto simp: csv_header_def newline_def)
  then have read: "read_csv (concat (map csv_line rows)) = rows" using read_csv_lines by blast
  have pending: "\<exists>res. p = Opened False res" if "heading p" for p using that by (cases p) auto
  show "case sp_file s of None \<Rightarrow> \<forall>res. Written res \<notin> set (sp_conns s)
      | Some t \<Rightarrow> (csv_header \<in> set (read_csv t) \<or> (\<exists>res. Opened False res \<in> set (sp_conns s))) \<and>
          mset (filter (\<lambda>row. row \<noteq> csv_header) (read_csv t)) = sum_mset (image_mset (written slotMs) (mset (sp_conns s)))"
  proof (cases "sp_file s")
    case None
    then show ?thesis using rows(1,2) one [of _ "sp_conns s"] by (fastforce simp: file_rows_def rows_written_def)
  next
    case (Some t)
    then have t: "t = concat (map csv_line rows)" using rows(1) by (simp add: file_rows_def)
    show ?thesis using Some rows(2,3) pending by (auto simp: t read rows_written_def)
  qed
qed

text \<open>Two connections side by side.\<close>

definition two :: "u64 \<Rightarrow> string option \<Rightarrow> conn_phase \<Rightarrow> conn_phase \<Rightarrow> server_proc" where
  "two q f p1 p2 = \<lparr>sp_taskSeq = q, sp_file = f, sp_conns = [p1, p2]\<rparr>"

definition demo_numbers :: task_numbers where
  "demo_numbers = \<lparr>nm_speed = Fin 2, nm_start = \<lparr>wall = 0, mono = 0\<rparr>, nm_end = \<lparr>wall = 1, mono = 1\<rparr>,
     nm_clientLoss = Fin 0, nm_serverLoss = Fin 0\<rparr>"

lemma two_steps:
  "kind \<in> {''upload'', ''download''} \<Longrightarrow> proc_step slotMs (two q f (Running t) p2) (two q f (HasResult (task_result t kind pm nm)) p2)"
  "kind \<in> {''upload'', ''download''} \<Longrightarrow> proc_step slotMs (two q f p1 (Running t)) (two q f p1 (HasResult (task_result t kind pm nm)))"
  "proc_step slotMs (two q f (HasResult res) p2) (two q f (Checked (f \<noteq> None) res) p2)"
  "proc_step slotMs (two q f p1 (HasResult res)) (two q f p1 (Checked (f \<noteq> None) res))"
  "csv_open (demo_os None) f = (None, f') \<Longrightarrow> proc_step slotMs (two q f (Checked ex res) p2) (two q f' (Opened ex res) p2)"
  "csv_open (demo_os None) f = (None, f') \<Longrightarrow> proc_step slotMs (two q f p1 (Checked ex res)) (two q f' p1 (Opened ex res))"
  "csv_flush (demo_os None) ex slotMs res f = (None, f') \<Longrightarrow> proc_step slotMs (two q f (Opened ex res) p2) (two q f' (Written res) p2)"
  "csv_flush (demo_os None) ex slotMs res f = (None, f') \<Longrightarrow> proc_step slotMs (two q f p1 (Opened ex res)) (two q f' p1 (Written res))"
  using step_result [of 0 "two q f (Running t) p2" t kind slotMs pm nm] step_result [of 1 "two q f p1 (Running t)" t kind slotMs pm nm]
    step_stat [of 0 "two q f (HasResult res) p2" res slotMs] step_stat [of 1 "two q f p1 (HasResult res)" res slotMs]
    step_open [of 0 "two q f (Checked ex res) p2" ex res "demo_os None" None f' slotMs]
    step_open [of 1 "two q f p1 (Checked ex res)" ex res "demo_os None" None f' slotMs]
    step_flush [of 0 "two q f (Opened ex res) p2" ex res "demo_os None" slotMs None f']
    step_flush [of 1 "two q f p1 (Opened ex res)" ex res "demo_os None" slotMs None f']
  by (simp_all add: two_def demo_os_def)

lemma two_results:
  "(proc_step slotMs)\<^sup>*\<^sup>* init_proc
    (two 2 None (HasResult (task_result 1 ''upload'' None nm)) (HasResult (task_result 2 ''download'' None nm)))"
proof -
  let ?r1 = "HasResult (task_result 1 ''upload'' None nm)" and ?r2 = "HasResult (task_result 2 ''download'' None nm)"
  have "proc_step slotMs init_proc \<lparr>sp_taskSeq = 0, sp_file = None, sp_conns = [Accepted]\<rparr>"
    using step_accept [of slotMs init_proc] by (simp add: init_proc_def)
  moreover have "proc_step slotMs \<lparr>sp_taskSeq = 0, sp_file = None, sp_conns = [Accepted]\<rparr> (two 0 None Accepted Accepted)"
    using step_accept [of slotMs "\<lparr>sp_taskSeq = 0, sp_file = None, sp_conns = [Accepted]\<rparr>"] by (simp add: two_def)
  moreover have "proc_step slotMs (two 0 None Accepted Accepted) (two 1 None (Running 1) Accepted)"
    using step_start [of 0 "two 0 None Accepted Accepted" slotMs] by (simp add: two_def next_task_id_def)
  moreover have "proc_step slotMs (two 1 None (Running 1) Accepted) (two 2 None (Running 1) (Running 2))"
    using step_start [of 1 "two 1 None (Running 1) Accepted" slotMs] by (simp add: two_def next_task_id_def)
  moreover have "proc_step slotMs (two 2 None (Running 1) (Running 2)) (two 2 None ?r1 (Running 2))"
    "proc_step slotMs (two 2 None ?r1 (Running 2)) (two 2 None ?r1 ?r2)"
    by (rule two_steps; simp)+
  ultimately show ?thesis by (meson converse_rtranclp_into_rtranclp rtranclp.rtrancl_refl)
qed

text \<open>
  The race of two tasks that end together. The first creates the file; the second finds it and
  writes its row before the first writes the header.
\<close>

lemma header_after_row:
  fixes slotMs nm
  defines "r1 \<equiv> task_result 1 ''upload'' None nm" and "r2 \<equiv> task_result 2 ''download'' None nm"
  shows "(proc_step slotMs)\<^sup>*\<^sup>* init_proc
    (two 2 (Some (concat (map csv_line [csv_record slotMs r2, csv_header, csv_record slotMs r1]))) (Written r1) (Written r2))"
proof -
  let ?t2 = "csv_line (csv_record slotMs r2)" and ?t1 = "csv_line csv_header @ csv_line (csv_record slotMs r1)"
  have start: "(proc_step slotMs)\<^sup>*\<^sup>* init_proc (two 2 None (HasResult r1) (HasResult r2))"
    unfolding r1_def r2_def by (rule two_results)
  have steps: "proc_step slotMs (two 2 None (HasResult r1) (HasResult r2)) (two 2 None (Checked False r1) (HasResult r2))"
    "proc_step slotMs (two 2 (Some []) (Opened False r1) (HasResult r2)) (two 2 (Some []) (Opened False r1) (Checked True r2))"
    using two_steps(3) [of slotMs 2 None r1] two_steps(4) [of slotMs 2 "Some []" _ r2] by simp_all
  have writes: "proc_step slotMs (two 2 None (Checked False r1) (HasResult r2)) (two 2 (Some []) (Opened False r1) (HasResult r2))"
    "proc_step slotMs (two 2 (Some []) (Opened False r1) (Checked True r2)) (two 2 (Some []) (Opened False r1) (Opened True r2))"
    "proc_step slotMs (two 2 (Some []) (Opened False r1) (Opened True r2)) (two 2 (Some ?t2) (Opened False r1) (Written r2))"
    "proc_step slotMs (two 2 (Some ?t2) (Opened False r1) (Written r2)) (two 2 (Some (?t2 @ ?t1)) (Written r1) (Written r2))"
    by (rule two_steps; simp add: csv_open_def csv_flush_def demo_os_def)+
  from start steps writes show ?thesis by (simp add: rtranclp.rtrancl_into_rtrancl)
qed

theorem single_server_file_witness:
  "\<exists>s t. (proc_step 1000)\<^sup>*\<^sup>* init_proc s \<and> sp_file s = Some t \<and> length (sp_conns s) = 2 \<and>
    csv_header \<in> set (read_csv t) \<and> length (filter (\<lambda>row. row \<noteq> csv_header) (read_csv t)) = 2"
proof -
  define r1 r2 where "r1 = task_result 1 ''upload'' None demo_numbers" and "r2 = task_result 2 ''download'' None demo_numbers"
  define t where "t = concat (map csv_line [csv_record 1000 r2, csv_header, csv_record 1000 r1])"
  define s where "s = two 2 (Some t) (Written r1) (Written r2)"
  have r: "(proc_step 1000)\<^sup>*\<^sup>* init_proc s" unfolding s_def t_def r1_def r2_def by (rule header_after_row)
  have s: "sp_file s = Some t" "sp_conns s = [Written r1, Written r2]" by (simp_all add: s_def two_def)
  have p: "csv_header \<in> set (read_csv t)"
    "mset (filter (\<lambda>row. row \<noteq> csv_header) (read_csv t)) = sum_mset (image_mset (written 1000) (mset (sp_conns s)))"
    using single_server_file [OF r] s by simp_all
  have "size (mset (filter (\<lambda>row. row \<noteq> csv_header) (read_csv t))) = 2" unfolding p(2) by (simp add: s)
  then have "length (filter (\<lambda>row. row \<noteq> csv_header) (read_csv t)) = 2" by (simp only: size_mset)
  then show ?thesis using r s p(1) by (intro exI [of _ s] exI [of _ t]) simp
qed

end
