(* ===== verification/Drivers.thy ===== *)
theory Drivers
  imports Calibration Transfer_Tasks
begin

text \<open>
  The programs around the tasks: \<open>main\<close>, \<open>runAutoSlots\<close>, \<open>serveOnce\<close>, \<open>runClientOnce\<close>,
  \<open>performTransferTasks\<close> and \<open>dialOnce\<close> of \<open>server/main.go\<close> and \<open>client/main.go\<close>, and the
  calibration tool \<open>sync.go\<close>. What the network and the tasks do arrives as a list of events;
  sleeps, the waiting for a peer's close and the output are not modelled.
\<close>

section \<open>Flags\<close>

record server_flags =
  sf_slot :: int
  sf_auto :: bool
  sf_qlog :: bool
  sf_old :: bool
  sf_pre :: bool
  sf_cid :: bool

definition server_flags_default :: server_flags where
  "server_flags_default = \<lparr>sf_slot = 1000, sf_auto = False, sf_qlog = False, sf_old = False, sf_pre = False, sf_cid = False\<rparr>"

datatype run_mode = AutoSlots | SingleSlot

text \<open>The server's \<open>main\<close> up to the start of its sockets; \<open>enableQlog\<close> is the flag itself.\<close>

definition server_main :: "server_flags \<Rightarrow> config \<Rightarrow> run_mode \<times> config" where
  "server_main fl cfg0 =
     (let cfg1 = (if sf_old fl then cfg0\<lparr>ServerOldPortCloseDelayMs := 0\<rparr> else cfg0);
          cfg2 = (if sf_pre fl then cfg1\<lparr>ServerPrebindNextPortEnabled := False\<rparr> else cfg1);
          cfg3 = (if sf_cid fl then cfg2\<lparr>CIDObfuscationEnabled := False\<rparr> else cfg2)
      in if sf_auto fl then (AutoSlots, cfg3) else (SingleSlot, cfg3\<lparr>SlotDuration := duration_ms (sf_slot fl)\<rparr>))"

record client_flags =
  cf_slot :: int
  cf_auto :: bool
  cf_streamWin :: int
  cf_connWin :: int
  cf_qlog :: bool
  cf_dou :: bool
  cf_cid :: bool

definition client_flags_default :: client_flags where
  "client_flags_default = \<lparr>cf_slot = 1000, cf_auto = False, cf_streamWin = 64, cf_connWin = 256, cf_qlog = False,
     cf_dou = False, cf_cid = False\<rparr>"

definition client_main :: "client_flags \<Rightarrow> config \<Rightarrow> run_mode \<times> config" where
  "client_main fl cfg0 =
     (let cfg1 = (if cf_dou fl then cfg0\<lparr>ClientDoubleSendEdgeThresholdMs := 0\<rparr> else cfg0);
          cfg2 = (if cf_cid fl then cfg1\<lparr>CIDObfuscationEnabled := False\<rparr> else cfg1)
      in (if cf_auto fl then AutoSlots else SingleSlot, cfg2))"

section \<open>Connections\<close>

record quic_config =
  KeepAlivePeriod :: duration
  InitialStreamReceiveWindow :: u64
  MaxStreamReceiveWindow :: "u64 option"
  InitialConnectionReceiveWindow :: u64
  MaxConnectionReceiveWindow :: "u64 option"
  MaxIncomingStreams :: "int option"
  MaxIncomingUniStreams :: "int option"

text \<open>The server's settings; what the code leaves out is \<open>None\<close>.\<close>

definition server_quic_config :: quic_config where
  "server_quic_config = \<lparr>KeepAlivePeriod = 15 * Second,
     InitialStreamReceiveWindow = 100 * 1024 * 1024, MaxStreamReceiveWindow = Some (500 * 1024 * 1024),
     InitialConnectionReceiveWindow = 150 * 1024 * 1024, MaxConnectionReceiveWindow = Some (1000 * 1024 * 1024),
     MaxIncomingStreams = None, MaxIncomingUniStreams = None\<rparr>"

definition client_quic_config :: "int \<Rightarrow> int \<Rightarrow> quic_config" where
  "client_quic_config streamWinMB connWinMB = \<lparr>KeepAlivePeriod = 15 * Second,
     InitialStreamReceiveWindow = u64_of_i64 streamWinMB * 1024 * 1024, MaxStreamReceiveWindow = None,
     InitialConnectionReceiveWindow = u64_of_i64 connWinMB * 1024 * 1024, MaxConnectionReceiveWindow = None,
     MaxIncomingStreams = Some 1024, MaxIncomingUniStreams = Some 256\<rparr>"

text \<open>
  \<open>dialOnce\<close>: the connection's state, its fresh statistics and its settings. \<open>dial\<close> is the answer
  of \<open>tr.Dial\<close>; after a failed one the new socket is closed.
\<close>

datatype dial_result =
    DialFailed error "sock option"
  | Dialed MagicConn LossStats lossTrace quic_config

definition dialOnce ::
  "(u64 \<Rightarrow> nat \<Rightarrow> u64) \<Rightarrow> gotime \<Rightarrow> duration \<Rightarrow> int \<Rightarrow> int \<Rightarrow> bool \<Rightarrow> (string \<Rightarrow> bool) \<Rightarrow> error + sock \<Rightarrow> error option \<Rightarrow> dial_result" where
  "dialOnce newSource now lat streamWinMB connWinMB enableQlog schemas listen dial =
     (case NewClientConn newSource now lat listen of
        Inl err \<Rightarrow> DialFailed err None
      | Inr conn \<Rightarrow>
          let lossStats = \<lparr>ls_sent = 0, ls_lost = 0\<rparr>; tracer = makeLossTracer enableQlog schemas
          in case dial of
               Some err \<Rightarrow> DialFailed err (localConn conn)
             | None \<Rightarrow> Dialed conn lossStats tracer (client_quic_config streamWinMB connWinMB))"

section \<open>The slots of the server\<close>

definition auto_slots :: "int list" where
  "auto_slots = [1500, 1400, 1300, 1200, 1100, 1000, 900, 800, 700, 600, 500, 400, 300, 200, 100, 100, 99999999]"

definition tasksPerSlot :: "config \<Rightarrow> int" where
  "tasksPerSlot cfg = wrap64 (TaskRounds cfg * 2)"

text \<open>
  What the server meets: an error of \<open>NewServerConn\<close> or \<open>Listen\<close> when \<open>serveOnce\<close> starts, an error
  of \<open>Accept\<close>, or a connection with the result of \<open>handleConn\<close>. \<open>serveOnce\<close> completes, fails, or
  still waits for some tasks. A start error can only be met by a start; between the tasks of
  a started server it does not happen and is passed over.
\<close>

datatype server_event = StartFails error | AcceptFails error | Served "task_error option"

datatype serve_result = Completed | Failed | Waiting nat

fun serve_tasks :: "nat \<Rightarrow> server_event list \<Rightarrow> serve_result \<times> server_event list" where
  "serve_tasks 0 evs = (Completed, evs)"
| "serve_tasks (Suc k) [] = (Waiting (Suc k), [])"
| "serve_tasks (Suc k) (StartFails e # evs) = serve_tasks (Suc k) evs"
| "serve_tasks (Suc k) (AcceptFails e # evs) = (Failed, evs)"
| "serve_tasks (Suc k) (Served (Some e) # evs) = (Failed, evs)"
| "serve_tasks (Suc k) (Served None # evs) = serve_tasks k evs"

fun serve_run :: "nat \<Rightarrow> server_event list \<Rightarrow> serve_result \<times> server_event list" where
  "serve_run k (StartFails e # evs) = (Failed, evs)"
| "serve_run k evs = serve_tasks k evs"

definition serveOnce :: "config \<Rightarrow> int \<Rightarrow> server_event list \<Rightarrow> config \<times> serve_result \<times> server_event list" where
  "serveOnce cfg slotMs evs =
     (cfg\<lparr>SlotDuration := duration_ms slotMs\<rparr>, serve_run (nat (tasksPerSlot cfg)) evs)"

lemma serve_tasks_length:
  "serve_tasks k evs = (r, rest) \<Longrightarrow> length rest \<le> length evs \<and> (r = Failed \<longrightarrow> length rest < length evs)"
  by (induction k evs rule: serve_tasks.induct) auto

lemma serve_run_length:
  "serve_run k evs = (r, rest) \<Longrightarrow> length rest \<le> length evs \<and> (r = Failed \<longrightarrow> length rest < length evs)"
  by (induction k evs rule: serve_run.induct) (auto dest: serve_tasks_length)

text \<open>
  \<open>runAutoSlots\<close>: the slots still to do, the current one first, with the tasks it still waits
  for, when the events are used up.
\<close>

function server_runAutoSlots :: "config \<Rightarrow> int list \<Rightarrow> server_event list \<Rightarrow> config \<times> int list \<times> nat" where
  "server_runAutoSlots cfg [] evs = (cfg, [], 0)"
| "server_runAutoSlots cfg (ms # slots) evs =
     (case serveOnce cfg ms evs of
        (cfg', Completed, rest) \<Rightarrow> server_runAutoSlots cfg' slots rest
      | (cfg', Failed, rest) \<Rightarrow> server_runAutoSlots cfg' (ms # slots) rest
      | (cfg', Waiting k, rest) \<Rightarrow> (cfg', ms # slots, k))"
  by pat_completeness auto

termination
  by (relation "measure (\<lambda>(cfg, slots, evs). length slots + length evs)")
    (auto simp: serveOnce_def dest!: serve_run_length [OF sym])

section \<open>The slots of the client\<close>

text \<open>One attempt of a task: the dial fails, or the task runs with its result.\<close>

datatype client_event = DialFails error | Ran "task_error option"

text \<open>The inner loop: attempts until one succeeds.\<close>

fun retry_task :: "client_event list \<Rightarrow> client_event list option" where
  "retry_task [] = None"
| "retry_task (DialFails e # evs) = retry_task evs"
| "retry_task (Ran (Some e) # evs) = retry_task evs"
| "retry_task (Ran None # evs) = Some evs"

text \<open>The rounds: an upload, then a download. \<open>Inl\<close> has the number of tasks still to do.\<close>

fun performTransferTasks :: "nat \<Rightarrow> client_event list \<Rightarrow> nat + client_event list" where
  "performTransferTasks 0 evs = Inr evs"
| "performTransferTasks (Suc r) evs =
     (case retry_task evs of
        None \<Rightarrow> Inl (2 * Suc r)
      | Some evs1 \<Rightarrow>
          (case retry_task evs1 of
             None \<Rightarrow> Inl (2 * Suc r - 1)
           | Some evs2 \<Rightarrow> performTransferTasks r evs2))"

text \<open>
  \<open>runClientOnce\<close>; the latency it measures first is measured again before every task. Its error
  is always nil, so \<open>runAutoSlots\<close> never repeats a slot.
\<close>

definition runClientOnce :: "config \<Rightarrow> int \<Rightarrow> client_event list \<Rightarrow> config \<times> (nat + client_event list)" where
  "runClientOnce cfg slotMs evs =
     (cfg\<lparr>SlotDuration := duration_ms slotMs\<rparr>, performTransferTasks (nat (TaskRounds cfg)) evs)"

fun client_runAutoSlots :: "config \<Rightarrow> int list \<Rightarrow> client_event list \<Rightarrow> config \<times> int list \<times> nat" where
  "client_runAutoSlots cfg [] evs = (cfg, [], 0)"
| "client_runAutoSlots cfg (ms # slots) evs =
     (case runClientOnce cfg ms evs of
        (cfg', Inl k) \<Rightarrow> (cfg', ms # slots, k)
      | (cfg', Inr rest) \<Rightarrow> client_runAutoSlots cfg' slots rest)"

section \<open>The calibration tool\<close>

text \<open>Where \<open>StartCalibrationServer\<close> listens; an address that does not parse leaves the host empty.\<close>

definition calibration_listen_addr :: "config \<Rightarrow> string" where
  "calibration_listen_addr cfg =
     (case parse_ipv4 (split_on (CHR ''.'') (SyncAddr cfg)) of
        Some ip \<Rightarrow> udp_string (UDPAddr ip 9999) | None \<Rightarrow> '':9999'')"

text \<open>
  \<open>sync.go\<close>: the configuration with which the calibration server starts, or the address the
  client asks.
\<close>

datatype sync_action = SyncServe config | SyncAsk string | SyncUsage

record sync_flags =
  yf_s :: bool
  yf_c :: bool
  yf_addr :: string

definition sync_main :: "config \<Rightarrow> sync_flags \<Rightarrow> sync_action" where
  "sync_main cfg fl =
     (if yf_s fl then SyncServe (cfg\<lparr>ListenAddr := yf_addr fl\<rparr>)
      else if yf_c fl then SyncAsk (SyncAddr cfg)
      else SyncUsage)"

lemma sync_addr_ignored:
  assumes "sync_main cfg \<lparr>yf_s = True, yf_c = b, yf_addr = a\<rparr> = SyncServe cfg'"
  shows "calibration_listen_addr cfg' = calibration_listen_addr cfg"
  using assms by (auto simp: sync_main_def calibration_listen_addr_def)

section \<open>Two drivers\<close>

text \<open>What the server meets when the client's attempts reach it.\<close>

fun server_view :: "client_event list \<Rightarrow> server_event list" where
  "server_view [] = []"
| "server_view (DialFails e # evs) = server_view evs"
| "server_view (Ran r # evs) = Served r # server_view evs"

text \<open>The client's tasks of one slot in a row.\<close>

fun perform_tasks :: "nat \<Rightarrow> client_event list \<Rightarrow> nat + client_event list" where
  "perform_tasks 0 evs = Inr evs"
| "perform_tasks (Suc k) evs = (case retry_task evs of None \<Rightarrow> Inl (Suc k) | Some rest \<Rightarrow> perform_tasks k rest)"

text \<open>The attempts of a client never make the server's start fail.\<close>

lemma serve_run_view [simp]: "serve_run k (server_view evs) = serve_tasks k (server_view evs)"
  by (induction evs rule: server_view.induct) simp_all

lemma performTransferTasks_eq: "performTransferTasks r evs = perform_tasks (2 * r) evs"
  by (induction r evs rule: performTransferTasks.induct) (auto split: option.splits)

definition no_failure :: "client_event list \<Rightarrow> bool" where
  "no_failure evs \<longleftrightarrow> (\<forall>ev \<in> set evs. \<forall>e. ev \<noteq> Ran (Some e))"

lemma no_failure_Cons [simp]: "no_failure (ev # evs) \<longleftrightarrow> (\<forall>e. ev \<noteq> Ran (Some e)) \<and> no_failure evs"
  by (auto simp: no_failure_def)

lemma retry_task_view:
  assumes "no_failure evs"
  shows "case retry_task evs of None \<Rightarrow> server_view evs = []
    | Some rest \<Rightarrow> server_view evs = Served None # server_view rest \<and> no_failure rest"
  using assms by (induction evs rule: retry_task.induct) (auto split: option.splits)

lemma serve_tasks_view:
  assumes "no_failure evs"
  shows "case perform_tasks k evs of Inl n \<Rightarrow> serve_tasks k (server_view evs) = (Waiting n, [])
    | Inr rest \<Rightarrow> serve_tasks k (server_view evs) = (Completed, server_view rest) \<and> no_failure rest"
  using assms
proof (induction k arbitrary: evs)
  case (Suc k)
  show ?case
  proof (cases "retry_task evs")
    case None
    then show ?thesis using retry_task_view [OF Suc.prems] by simp
  next
    case (Some rest)
    then have "server_view evs = Served None # server_view rest" "no_failure rest"
      using retry_task_view [OF Suc.prems] by simp_all
    then show ?thesis using Suc.IH [of rest] Some by (simp split: sum.splits)
  qed
qed simp

lemma tasksPerSlot_nat: "0 \<le> TaskRounds cfg \<Longrightarrow> TaskRounds cfg < 2 ^ 62 \<Longrightarrow> nat (tasksPerSlot cfg) = 2 * nat (TaskRounds cfg)"
  by (simp add: tasksPerSlot_def go_simps nat_mult_distrib)

lemma perform_tasks_done: "perform_tasks (j + k) (replicate j (Ran None) @ evs) = perform_tasks k evs"
  by (induction j) simp_all

lemma serve_tasks_done: "serve_tasks (j + k) (server_view (replicate j (Ran None) @ evs)) = serve_tasks k (server_view evs)"
  by (induction j) simp_all

section \<open>Properties\<close>

text \<open>
  C8. The drivers of client and server stay together as long as no task fails: after the same
  attempts, dials that fail included, both are in the same slot, with the same slot length and
  the same number of tasks to go.
\<close>

theorem drivers_in_step:
  assumes "no_failure evs" "0 \<le> TaskRounds cs" "TaskRounds cs < 2 ^ 62"
    and "TaskRounds cc = TaskRounds cs" "SlotDuration cc = SlotDuration cs"
    and "server_runAutoSlots cs slots (server_view evs) = (cs', left, n)" "client_runAutoSlots cc slots evs = (cc', left', n')"
  shows "SlotDuration cs' = SlotDuration cc' \<and> left = left' \<and> n = n'"
  using assms
proof (induction cc slots evs arbitrary: cs rule: client_runAutoSlots.induct)
  case (1 cfg evs)
  then show ?case by simp
next
  case (2 cfg ms slots evs)
  have k: "nat (tasksPerSlot cs) = 2 * nat (TaskRounds cfg)" using tasksPerSlot_nat 2(3-5) by simp
  show ?case
  proof (cases "perform_tasks (2 * nat (TaskRounds cfg)) evs")
    case (Inl m)
    then show ?thesis using serve_tasks_view [OF 2(2), of "2 * nat (TaskRounds cfg)"] 2(7,8)
      by (auto simp: runClientOnce_def serveOnce_def performTransferTasks_eq k)
  next
    case (Inr rest)
    let ?cs = "cs\<lparr>SlotDuration := duration_ms ms\<rparr>" and ?cc = "cfg\<lparr>SlotDuration := duration_ms ms\<rparr>"
    have s: "serve_tasks (2 * nat (TaskRounds cfg)) (server_view evs) = (Completed, server_view rest)" "no_failure rest"
      using serve_tasks_view [OF 2(2), of "2 * nat (TaskRounds cfg)"] Inr by auto
    have run: "runClientOnce cfg ms evs = (?cc, Inr rest)" by (simp add: runClientOnce_def performTransferTasks_eq Inr)
    then have "client_runAutoSlots ?cc slots rest = (cc', left', n')"
      and "server_runAutoSlots ?cs slots (server_view rest) = (cs', left, n)"
      using 2(7,8) s(1) by (simp_all add: serveOnce_def k)
    then show ?thesis using 2(1) [OF run [symmetric] refl s(2), of ?cs] 2(3-5) by simp
  qed
qed

theorem drivers_in_step_witness:
  "\<exists>cs cc. server_runAutoSlots (default_config\<lparr>TaskRounds := 1\<rparr>) [1500, 1400] (server_view [Ran None, DialFails ''timeout'', Ran None, Ran None]) = (cs, [1400], 1) \<and>
    client_runAutoSlots (default_config\<lparr>TaskRounds := 1\<rparr>) [1500, 1400] [Ran None, DialFails ''timeout'', Ran None, Ran None] = (cc, [1400], 1) \<and>
    SlotDuration cs = SlotDuration cc"
proof -
  let ?cfg = "default_config\<lparr>TaskRounds := 1\<rparr>" and ?evs = "[Ran None, DialFails ''timeout'', Ran None, Ran None]"
  obtain cs where s: "server_runAutoSlots ?cfg [1500, 1400] (server_view ?evs) = (cs, [1400], 1)"
    by (simp add: serveOnce_def tasksPerSlot_def go_simps numeral_2_eq_2)
  obtain cc where c: "client_runAutoSlots ?cfg [1500, 1400] ?evs = (cc, [1400], 1)"
    by (simp add: runClientOnce_def)
  show ?thesis using drivers_in_step [OF _ _ _ _ _ s c] s c by (simp add: no_failure_def)
qed

text \<open>
  C9. One failed task separates the drivers: the client repeats only that task, but the server
  starts the slot again with all of its tasks. When the client has finished the slot and set the
  length of the next one, the server is still in the old slot and waits for as many tasks as had
  been done before the failure.
\<close>

theorem failed_task_separates_drivers:
  assumes "0 \<le> TaskRounds cs" "TaskRounds cs < 2 ^ 62" "TaskRounds cc = TaskRounds cs"
    and "0 < j" "int j < 2 * TaskRounds cs"
    and "evs = replicate j (Ran None) @ [Ran (Some e)] @ replicate (2 * nat (TaskRounds cs) - j) (Ran None)"
  shows "client_runAutoSlots cc (ms1 # ms2 # slots) evs =
      (cc\<lparr>SlotDuration := duration_ms ms2\<rparr>, ms2 # slots, 2 * nat (TaskRounds cs)) \<and>
    server_runAutoSlots cs (ms1 # ms2 # slots) (server_view evs) = (cs\<lparr>SlotDuration := duration_ms ms1\<rparr>, ms1 # ms2 # slots, j)"
proof
  define N where "N = 2 * nat (TaskRounds cs)"
  define m where "m = N - j"
  have N: "j < N" "nat (tasksPerSlot cs) = N" using assms(1-3,5) tasksPerSlot_nat [of cs] by (simp_all add: N_def)
  then have jm: "N = j + m" "0 < m" by (simp_all add: m_def)
  obtain m' where m': "m = Suc m'" using jm(2) by (cases m) auto
  obtain N' where N': "N = Suc N'" using N(1) by (cases N) auto
  have evs: "evs = replicate j (Ran None) @ Ran (Some e) # replicate m (Ran None)"
    using assms(6) by (simp add: m_def N_def)
  have "perform_tasks N evs = perform_tasks m (Ran (Some e) # replicate m (Ran None))"
    unfolding jm(1) evs by (rule perform_tasks_done)
  also have "\<dots> = perform_tasks (m + 0) (replicate m (Ran None) @ [])" by (simp add: m')
  also have "\<dots> = Inr []" by (simp only: perform_tasks_done) simp
  finally have c1: "runClientOnce cc ms1 evs = (cc\<lparr>SlotDuration := duration_ms ms1\<rparr>, Inr [])"
    by (simp add: runClientOnce_def performTransferTasks_eq assms(3) N_def)
  have "perform_tasks N [] = Inl N" by (simp add: N')
  then show "client_runAutoSlots cc (ms1 # ms2 # slots) evs =
      (cc\<lparr>SlotDuration := duration_ms ms2\<rparr>, ms2 # slots, 2 * nat (TaskRounds cs))"
    by (simp add: c1, simp add: runClientOnce_def performTransferTasks_eq assms(3) N_def)
  have "serve_tasks N (server_view evs) = serve_tasks m (server_view (Ran (Some e) # replicate m (Ran None)))"
    unfolding jm(1) evs by (rule serve_tasks_done)
  also have "\<dots> = (Failed, server_view (replicate m (Ran None)))" by (simp add: m')
  finally have s1: "serveOnce cs ms1 (server_view evs) =
      (cs\<lparr>SlotDuration := duration_ms ms1\<rparr>, Failed, server_view (replicate m (Ran None)))"
    by (simp add: serveOnce_def N(2))
  have "serve_tasks N (server_view (replicate m (Ran None))) = serve_tasks (m + j) (server_view (replicate m (Ran None) @ []))"
    by (simp add: jm(1) add.commute)
  also have "\<dots> = serve_tasks j (server_view [])" by (rule serve_tasks_done)
  also have "\<dots> = (Waiting j, [])" using assms(4) by (cases j) simp_all
  finally have s2: "serveOnce (cs\<lparr>SlotDuration := duration_ms ms1\<rparr>) ms1 (server_view (replicate m (Ran None))) =
      (cs\<lparr>SlotDuration := duration_ms ms1\<rparr>, Waiting j, [])"
    using N(2) by (simp add: serveOnce_def tasksPerSlot_def)
  show "server_runAutoSlots cs (ms1 # ms2 # slots) (server_view evs) = (cs\<lparr>SlotDuration := duration_ms ms1\<rparr>, ms1 # ms2 # slots, j)"
    by (simp add: s1 s2)
qed

theorem failed_task_separates_drivers_witness:
  "\<exists>evs. client_runAutoSlots default_config auto_slots evs = (default_config\<lparr>SlotDuration := duration_ms 1400\<rparr>, tl auto_slots, 20) \<and>
    server_runAutoSlots default_config auto_slots (server_view evs) = (default_config\<lparr>SlotDuration := duration_ms 1500\<rparr>, auto_slots, 3)"
  using failed_task_separates_drivers [of default_config default_config 3 _ "UnknownTaskType 0" 1500 1400 "drop 2 auto_slots", OF _ _ refl _ _ refl]
  by (fastforce simp: auto_slots_def default_config_def)

end
