(* ===== verification/Spec2Isabelle.thy ===== *)
theory Spec2Isabelle
  imports Server_Hop_Correct Calibration Cid_Generator Transfer_Correct Server_Process Drivers
begin

text \<open>
  Verification library for quic-hop, a pair of Go programs that run QUIC over UDP while the server
  hops from address to address with the time and both sides obfuscate the connection IDs.

  The program. \<open>pkg/magic\<close> is the transport: every process derives from the clock and a shared
  secret the address of the current time slot (\<open>algo.go\<close>); the server binds it and the next one
  and moves on at each slot (\<open>conn.go\<close>); the client calibrates its clock against the server
  (\<open>calibration.go\<close>), predicts the slot in which a packet will arrive, and near the edge of a
  slot sends to both candidates. Connection IDs are encoded on the way out and restored from a
  cache on the way in (\<open>algo.go\<close>, \<open>session.go\<close>, \<open>conn.go\<close>). \<open>server/main.go\<close> and
  \<open>client/main.go\<close> run measured uploads and downloads over it, in slots of different lengths;
  \<open>pkg/cpumon\<close> samples the load of the server; \<open>sync.go\<close> runs the calibration alone.

  Foundations.
  \<^item> \<open>Hop_Prelude\<close>: machine types, the outcome \<open>'a go\<close> of a call (returns, panics, does not
    return), wrap-around and truncating division of \<open>int64\<close>.
  \<^item> \<open>Go_Bytes\<close>, \<open>Go_Time\<close>, \<open>Go_Float\<close>: what the program uses of \<open>encoding/binary\<close>,
    \<open>fmt\<close>, \<open>strconv\<close>, \<open>time\<close>, and double precision numbers. Doubles are exact rationals,
    every operation rounds to 53 bits, ties to even; the locale \<open>rounding\<close> has what the bounds on
    percentages need of that and is interpreted for \<open>f64_round\<close>. Signs of zeros are not kept.

  The transport.
  \<^item> \<open>Config\<close> (\<open>config.go\<close>): constants, the package variables as the record \<open>config\<close>, and UDP
    addresses with their printed form.
  \<^item> \<open>Hopping\<close> (\<open>algo.go\<close>: \<open>GetAddressByTime\<close>, \<open>GetNextHopDelay\<close>): addresses stay in the
    ranges of the code through a slot, the delay ends in the next slot, short slots panic.
  \<^item> \<open>Rand_Shuffle\<close>, \<open>Index_Table\<close> (\<open>algo.go\<close>: shuffles, \<open>precomputeIndices\<close>,
    \<open>GenerateMask\<close>): the table computation ends and runs once, its rows are permutations, masks are
    balanced and cached.
  \<^item> \<open>Cid_Codec\<close>, \<open>Cid_Generator\<close> (\<open>algo.go\<close>: \<open>Obfuscate\<close>, \<open>Deobfuscate\<close>, \<open>Matches\<close>;
    \<open>tls.go\<close>: \<open>FixedBytesGenerator\<close>): round trip between any two processes, every sixteen
    bytes decode, generated IDs always fit.
  \<^item> \<open>Session\<close> (\<open>session.go\<close>): the caches refine a list of known IDs; sources are isolated. The
    code shares a cache by pointer; here a reader stores the cache it updated under its address.
  \<^item> \<open>Conn\<close>, \<open>Conn_Correct\<close> (\<open>conn.go\<close>: \<open>packetPump\<close>, \<open>ReadFrom\<close>, \<open>WriteTo\<close>,
    \<open>clientWrite\<close>): the data path keeps its invariants, bounds its queue and buffer, restores what
    was encoded once one of the ten plain packets of an ID has arrived (and not when all ten are
    lost), and a client's send reaches a server that is in step.
  \<^item> \<open>Server_Hop\<close>, \<open>Server_Hop_Correct\<close> (\<open>conn.go\<close>: \<open>NewServerConn\<close>, \<open>hop\<close>,
    \<open>serverHoppingLoop\<close>, \<open>Close\<close>): \<open>endpoint\<close> is the connection with its sockets, \<open>ep_step\<close>
    the interleaving of hops, closing, cancellation, timers, pumps and traffic; the account of the
    open sockets is an invariant of all reachable states, \<open>Close\<close> releases them unless the loop hops
    once more, and runs of hops follow the slots.
  \<^item> \<open>Calibration\<close> (\<open>calibration.go\<close> and \<open>StartPeriodicCalibration\<close>): both sides, and the
    accuracy of the result.

  The programs around it.
  \<^item> \<open>Cpumon\<close> (\<open>cpumon.go\<close>): the parsers of \<open>/proc\<close>, \<open>Monitor\<close>, the process monitor
    and its averages; the right fields are found and the percentages are bounded.
  \<^item> \<open>Loss_Stats\<close> (both \<open>main.go\<close>): the tracer with its shared counters, the percentage, and its
    way over the wire.
  \<^item> \<open>Stream_Prog\<close>: programs over a stream as trees of calls. \<open>stream_run\<close> is one program
    against any peer and any failure, \<open>net_step\<close> two programs against each other with the inboxes
    between them, \<open>good\<close> that all schedules end well. Since a write or a full read that is ready
    has one outcome that the other side cannot disturb, such steps may be taken first
    (\<open>eager_left\<close>), and a dialogue is checked along one schedule.
  \<^item> \<open>Transfer_Tasks\<close>, \<open>Transfer_Correct\<close> (\<open>runUploadTask\<close>, \<open>runDownloadTask\<close> of both
    programs, \<open>handleSingleTask\<close>): the dialogues end with the right results on both sides; a task
    that returns a result has moved all its bytes, whatever the peer is.
  \<^item> \<open>Results_Csv\<close> (\<open>appendResultsCSV\<close>, \<open>handleConn\<close>): the results file is a table.
  \<^item> \<open>Server_Process\<close> (the accept loop of \<open>main\<close> and its goroutines): interleavings of the
    connections of a single-slot server over the task counter and the results file.
  \<^item> \<open>Drivers\<close> (\<open>main\<close>, \<open>runAutoSlots\<close>, \<open>serveOnce\<close>, \<open>performTransferTasks\<close>,
    \<open>dialOnce\<close>, \<open>sync.go\<close>): flags, slots, rounds and retries over lists of events; client and
    server stay in step until a task fails.

  Interfaces. The contracts between components are locales, interpreted on the definitions of the
  component that provides them: \<open>bounded_rng\<close>, \<open>code_table\<close>, \<open>cid_store\<close> and \<open>rounding\<close>; the lemmas
  of a client are proved under its locale and used through the interpretation.

  Parameters. Code outside the repository and the world are arguments: \<open>newSource\<close> (the output of
  \<open>rand.NewSource\<close>; it must not stay in the rejection zone for ever, \<open>source_lively\<close>), clock
  readings, results of socket calls, datagrams received, contents of files, \<open>oor\<close> (what the machine
  makes of a conversion to \<open>uint64\<close> out of range), \<open>fromBytes\<close> (quic-go's constructor of
  connection IDs), \<open>Dir\<close> (\<open>filepath.Dir\<close>) and \<open>other\<close> (\<open>strconv.ParseFloat\<close> on
  anything but digits). The only loop that may not end is the rejection loop of \<open>math/rand\<close>, a
  partial function; every other loop is a total function, and no fuel is used.

  Not modelled: \<open>GenerateTLSConfig\<close> and quic-go itself (streams are reliable, ordered and
  unbounded here, so the blocking of a write by flow control is not seen), the socket options, the
  deadline setters (which do nothing), the text that is printed and logged, sleeps, the wait for the
  peer's close, the directories of qlog, and the memory
  the programs may run out of.
\<close>

text \<open>
  C1. Calibration, prediction, double send and hopping fit together. Let the probes of
  \<open>SyncWithServer\<close> see delays (clock difference included) between \<open>lo\<close> and \<open>hi\<close>, and let the
  client send with the measured latency a packet whose true delay is in the same range. If
  the spread is smaller than both a slot and the double-send threshold less one millisecond,
  one of the client's sends goes to an address that a server steady in the slot of the
  arrival has bound.
\<close>

theorem calibrated_client_reaches_server:
  assumes "config_ok cfg" "ClientDoubleSendEdgeThresholdMs cfg \<le> slot_ms cfg"
    and "dial_ok (resolveUDPAddr (ip @ '':9999''))"
    and "answered (pbs 0) (srv 0)" "probe_ok lo hi (pbs 0) (srv 0)"
    and "\<And>j. lost (pbs j) \<or> answered (pbs j) (srv j) \<and> probe_ok lo hi (pbs j) (srv j)"
    and "time_ok (pb_stamp (pbs 0))" "wall (pb_stamp (pbs 0)) \<le> wall (pb_send (pbs 0))"
      "wall (pb_send (pbs 0)) \<le> wall (pb_stamp (pbs 0)) + gap"
    and "- (2 ^ 60) \<le> lo" "hi \<le> 2 ^ 60"
    and "hi - lo + gap + 1 \<le> SlotDuration cfg"
      "hi - lo + 1 \<le> (ClientDoubleSendEdgeThresholdMs cfg - 1) * 1000000"
    and "localConn c = Some l" "\<And>s. snd (sockWrite s) = None"
    and "lo \<le> wall arrival - wall now" "wall arrival - wall now \<le> hi"
    and "2 ^ 60 + 1 \<le> wall now" "wall now + SlotDuration cfg + hi + gap + 1 < 2 ^ 62"
    and "steady (slot_of cfg arrival) e"
  shows "\<exists>lat r. SyncWithServer dial_ok pbs ip = Ret lat \<and>
    clientWrite cfg sockWrite now (c\<lparr>latency := lat\<rparr>) p = Ret r \<and> wr_err r = None \<and> reaches e r"
proof -
  obtain lat where lat: "SyncWithServer dial_ok pbs ip = Ret lat" "lo - 1 \<le> lat" "lat \<le> hi + gap + 1"
    using SyncWithServer_accuracy [of dial_ok ip pbs srv lo hi gap, OF assms(3-11)] by blast
  define P T where "P = wall now + lat" and "T = wall arrival"
  have dur: "SlotDuration cfg = slot_ms cfg * 1000000" "0 \<le> SlotDuration cfg"
    using assms(1) by (auto simp: config_ok_def slot_ms_def)
  have "P \<le> T + slot_ms cfg * 1000000" using lat(3) assms(12,16) dur by (simp add: P_def T_def)
  then have "P div 1000000 \<le> (T + slot_ms cfg * 1000000) div 1000000" by (rule zdiv_mono1) simp
  then have w1: "P div 1000000 \<le> T div 1000000 + slot_ms cfg" by simp
  have "T \<le> P + (ClientDoubleSendEdgeThresholdMs cfg - 1) * 1000000"
    using lat(2) assms(13,17) by (simp add: P_def T_def)
  then have "T div 1000000 \<le> (P + (ClientDoubleSendEdgeThresholdMs cfg - 1) * 1000000) div 1000000"
    by (rule zdiv_mono1) simp
  then have w2: "T div 1000000 < P div 1000000 + ClientDoubleSendEdgeThresholdMs cfg" by simp
  have ok: "time_ok (time_add now lat)" "time_ok (time_add now (lat + SlotDuration cfg))"
    using lat(2,3) assms(10,18,19) dur(2) by (simp_all add: time_ok_def)
  have "\<exists>r. clientWrite cfg sockWrite now (c\<lparr>latency := lat\<rparr>) p = Ret r \<and> wr_err r = None \<and> reaches e r"
    by (rule clientWrite_reaches [where l = l and t = arrival])
      (use assms(1,2,14,15,20) ok w1 w2 in \<open>simp_all add: P_def T_def\<close>)
  then show ?thesis using lat(1) by blast
qed

theorem calibrated_client_reaches_server_witness:
  "\<exists>e0 lat r. NewServerConn zero_source default_config (demo_time 0) (demo_time 0) (demo_time 0) True True = Ret (Inr e0) \<and>
    SyncWithServer (\<lambda>_. True) demo_probes ''192.168.1.2'' = Ret lat \<and>
    clientWrite default_config (\<lambda>s. (20, None)) (demo_time (- 1500000000)) (demo_client\<lparr>latency := lat\<rparr>) demo_packet = Ret r \<and>
    reaches e0 r"
proof -
  obtain e0 where e0: "NewServerConn zero_source default_config (demo_time 0) (demo_time 0) (demo_time 0) True True = Ret (Inr e0)"
      "sockets_inv e0" "ep_pc e0 = HopWait" "steady 1700000000 e0" by (rule demo_server_start)
  have "\<exists>lat r. SyncWithServer (\<lambda>_. True) demo_probes ''192.168.1.2'' = Ret lat \<and>
    clientWrite default_config (\<lambda>s. (20, None)) (demo_time (- 1500000000)) (demo_client\<lparr>latency := lat\<rparr>) demo_packet = Ret r \<and>
    wr_err r = None \<and> reaches e0 r"
    by (rule calibrated_client_reaches_server [where srv = demo_server_clock and lo = 2003000000 and hi = 2003000000
          and gap = 0 and l = 0 and arrival = "demo_time 503000000"])
      (use demo_probes demo_probe e0(4) demo_client(3) in \<open>auto simp: config_ok_default demo_readings demo_time time_ok_def
        default_config_simps\<close>)
  then show ?thesis using e0(1) by blast
qed

end
